theory Spec2Isabelle
  imports Main "HOL-Library.Log_Nat" "HOL-Library.Char_ord" "HOL-Library.List_Lexorder"
    "HOL-Library.Product_Lexorder"
begin

section \<open>Time\<close>

text \<open>
  A datetime is the number of microseconds the clock \<^verbatim>\<open>timezone.now()\<close> has counted
  since its epoch, a date is a day number on the same clock. One request reads the
  clock once: every \<^verbatim>\<open>timezone.now()\<close> of one call of a view or of \<^verbatim>\<open>save\<close> is the
  argument \<open>now\<close>.
\<close>

type_synonym datetime = int
type_synonym date = int

definition day_us :: int where
  "day_us = 86400000000"

text \<open>\<^verbatim>\<open>timezone.now().date()\<close>\<close>
definition date_of :: "datetime \<Rightarrow> date" where
  "date_of now = now div day_us"

text \<open>\<^verbatim>\<open>timezone.now().replace(hour=0, minute=0, second=0, microsecond=0)\<close>\<close>
definition today_start :: "datetime \<Rightarrow> datetime" where
  "today_start now = now - now mod day_us"

text \<open>\<^verbatim>\<open>timezone.now() - timedelta(days=7)\<close>\<close>
definition week_start :: "datetime \<Rightarrow> datetime" where
  "week_start now = now - 7 * day_us"

section \<open>Formatting integers\<close>

text \<open>Python's \<^verbatim>\<open>str\<close> of an integer, as the f-strings of the notes and titles use it.\<close>

definition digit_char :: "nat \<Rightarrow> char" where
  "digit_char d = ''0123456789'' ! d"

fun str_nat :: "nat \<Rightarrow> string" where
  "str_nat n = (if n < 10 then [digit_char n] else str_nat (n div 10) @ [digit_char (n mod 10)])"

declare str_nat.simps [simp del]

definition str_int :: "int \<Rightarrow> string" where
  "str_int i = (if i < 0 then CHR ''-'' # str_nat (nat (- i)) else str_nat (nat i))"

section \<open>Policies\<close>

record ai_ethics_policy =
  p_id :: nat
  p_title :: string
  p_status :: string
  p_max_daily_usage :: int
  p_max_weekly_usage :: int
  p_effective_from :: date
  p_effective_until :: "date option"

text \<open>\<^verbatim>\<open>AIEthicsPolicy.is_active\<close>, with \<open>today\<close> the value of \<^verbatim>\<open>timezone.now().date()\<close>.\<close>

definition is_active :: "ai_ethics_policy \<Rightarrow> date \<Rightarrow> bool" where
  "is_active p today =
     (if p_status p \<noteq> ''active'' then False
      else if today < p_effective_from p then False
      else if (case p_effective_until p of None \<Rightarrow> False | Some u \<Rightarrow> u < today) then False
      else True)"

section \<open>Usage logs, insights and the store\<close>

record ai_usage_log =
  l_id :: "nat option"
  l_user :: nat
  l_ai_tool :: string
  l_usage_type :: string
  l_description :: string
  l_course_code :: string
  l_assignment_id :: string
  l_duration_minutes :: int
  l_tokens_used :: int
  l_policy :: "nat option"
  l_is_compliant :: bool
  l_compliance_notes :: string
  l_timestamp :: datetime
  l_ip_address :: "string option"
  l_user_agent :: string

record user_insight =
  i_id :: nat
  i_user :: nat
  i_insight_type :: string
  i_title :: string
  i_message :: string
  i_priority :: string
  i_related_usage_logs :: "nat list"
  i_is_read :: bool
  i_is_dismissed :: bool
  i_generated_at :: datetime
  i_expires_at :: "datetime option"

record auth_user =
  u_id :: nat
  u_username :: string
  u_email :: string
  u_first_name :: string
  u_last_name :: string
  u_date_joined :: datetime

record user_profile =
  pr_user :: nat
  pr_student_id :: "string option"
  pr_department :: string
  pr_enrollment_date :: date
  pr_data_collection_consent :: bool
  pr_consent_date :: "datetime option"
  pr_allow_analytics :: bool
  pr_email_notifications :: bool
  pr_weekly_summary :: bool

record user_feedback =
  f_user :: nat
  f_feedback_type :: string
  f_title :: string
  f_description :: string
  f_url :: string
  f_status :: string
  f_admin_response :: string
  f_submitted_at :: datetime

text \<open>
  The relational store: one list of rows per table, in insertion order, and the next
  value of the two primary-key sequences that the modelled code draws from.
\<close>

record db =
  profiles :: "user_profile list"
  policies :: "ai_ethics_policy list"
  usage_logs :: "ai_usage_log list"
  insights :: "user_insight list"
  feedback :: "user_feedback list"
  next_log_id :: nat
  next_insight_id :: nat

text \<open>
  \<^verbatim>\<open>self.policy\<close>: the row the foreign key points to, \<open>None\<close> for a null key. The key
  is set to null when its policy is deleted (\<^verbatim>\<open>on_delete=SET_NULL\<close>), so a key with
  no row does not occur; the model reads it as null.
\<close>

definition policy_of :: "db \<Rightarrow> ai_usage_log \<Rightarrow> ai_ethics_policy option" where
  "policy_of d self =
     (case l_policy self of
        None \<Rightarrow> None
      | Some k \<Rightarrow> find (\<lambda>p. p_id p = k) (policies d))"

text \<open>\<^verbatim>\<open>AIUsageLog.objects.filter(user=u, timestamp__gte=t).count()\<close>\<close>

definition count_since :: "db \<Rightarrow> nat \<Rightarrow> datetime \<Rightarrow> int" where
  "count_since d u t =
     int (length (filter (\<lambda>r. l_user r = u \<and> t \<le> l_timestamp r) (usage_logs d)))"

text \<open>\<^verbatim>\<open>AIUsageLog.objects.filter(user=u).count()\<close>\<close>

definition count_all :: "db \<Rightarrow> nat \<Rightarrow> nat" where
  "count_all d u = length (filter (\<lambda>r. l_user r = u) (usage_logs d))"

section \<open>The policy evaluator\<close>

text \<open>\<^verbatim>\<open>AIUsageLog.check_compliance\<close>\<close>

definition check_compliance :: "ai_usage_log \<Rightarrow> db \<Rightarrow> datetime \<Rightarrow> ai_usage_log" where
  "check_compliance self d now =
     (case policy_of d self of
        None \<Rightarrow> self\<lparr>l_is_compliant := True\<rparr>
      | Some p \<Rightarrow>
          if \<not> is_active p (date_of now) then self\<lparr>l_is_compliant := True\<rparr>
          else if p_max_daily_usage p \<le> count_since d (l_user self) (today_start now) then
            self\<lparr>l_is_compliant := False,
                l_compliance_notes :=
                  ''Exceeded daily usage limit of '' @ str_int (p_max_daily_usage p)\<rparr>
          else if p_max_weekly_usage p \<le> count_since d (l_user self) (week_start now) then
            self\<lparr>l_is_compliant := False,
                l_compliance_notes :=
                  ''Exceeded weekly usage limit of '' @ str_int (p_max_weekly_usage p)\<rparr>
          else
            self\<lparr>l_is_compliant := True,
                l_compliance_notes := ''Usage within policy limits''\<rparr>)"

section \<open>The insight generator\<close>

text \<open>
  \<^verbatim>\<open>UserInsight.objects.create(user, insight_type, title, message, priority)\<close>: the
  other fields take their defaults, the key comes from the sequence and
  \<^verbatim>\<open>generated_at\<close> is the clock (\<^verbatim>\<open>auto_now_add\<close>).
\<close>

definition create_insight ::
  "nat \<Rightarrow> string \<Rightarrow> string \<Rightarrow> string \<Rightarrow> string \<Rightarrow> datetime \<Rightarrow> db \<Rightarrow> db" where
  "create_insight u ty ttl msg prio now d =
     d\<lparr>insights := insights d @
          [\<lparr>i_id = next_insight_id d, i_user = u, i_insight_type = ty, i_title = ttl,
            i_message = msg, i_priority = prio, i_related_usage_logs = [],
            i_is_read = False, i_is_dismissed = False, i_generated_at = now,
            i_expires_at = None\<rparr>],
       next_insight_id := Suc (next_insight_id d)\<rparr>"

definition milestones :: "nat list" where
  "milestones = [10, 50, 100, 250, 500, 1000]"

text \<open>
  The check of \<^verbatim>\<open>generate_usage_insights\<close> that a warning of this user was already
  generated today.
\<close>

definition warned_today :: "db \<Rightarrow> nat \<Rightarrow> datetime \<Rightarrow> bool" where
  "warned_today d u t =
     list_ex (\<lambda>i. i_user i = u \<and> i_insight_type i = ''warning'' \<and> t \<le> i_generated_at i)
       (insights d)"

text \<open>\<^verbatim>\<open>generate_usage_insights\<close>, the \<^verbatim>\<open>post_save\<close> receiver of \<^verbatim>\<open>AIUsageLog\<close>.\<close>

definition generate_usage_insights :: "ai_usage_log \<Rightarrow> bool \<Rightarrow> datetime \<Rightarrow> db \<Rightarrow> db" where
  "generate_usage_insights instance created now d =
     (if \<not> created then d
      else
        let user = l_user instance;
            today_usage = count_since d user (today_start now);
            d1 = (if 50 \<le> today_usage \<and> \<not> warned_today d user (today_start now) then
                    create_insight user ''warning'' ''High AI Usage Today''
                      (''You have logged '' @ str_int today_usage @
                       '' AI interactions today. Consider taking breaks and reflecting on your learning process.'')
                      ''high'' now d
                  else d);
            total_usage = count_all d1 user
        in if total_usage \<in> set milestones then
             create_insight user ''achievement''
               (''Milestone: '' @ str_nat total_usage @ '' AI Interactions!'')
               (''Congratulations! You have logged '' @ str_nat total_usage @
                '' AI interactions. Keep learning responsibly!'')
               ''medium'' now d1
           else d1)"

section \<open>Saving a usage log\<close>

text \<open>
  \<^verbatim>\<open>AIUsageLog.save\<close>: the compliance check when the log references a policy, then
  \<^verbatim>\<open>Model.save\<close>, then the \<^verbatim>\<open>post_save\<close> receiver. \<^verbatim>\<open>Model.save\<close> inserts an
  instance that has no key, with the next key of the sequence, and one whose key has no
  row, with that key; both set \<^verbatim>\<open>timestamp\<close> to the clock (\<^verbatim>\<open>auto_now_add\<close>) and
  signal \<^verbatim>\<open>created=True\<close>. An instance whose key has a row overwrites that row and
  signals \<^verbatim>\<open>created=False\<close>. The result is the instance as saved and the new store.
\<close>

definition has_row :: "db \<Rightarrow> nat \<Rightarrow> bool" where
  "has_row d k = list_ex (\<lambda>r. l_id r = Some k) (usage_logs d)"

definition model_save :: "ai_usage_log \<Rightarrow> db \<Rightarrow> datetime \<Rightarrow> (ai_usage_log \<times> bool) \<times> db" where
  "model_save self d now =
     (case l_id self of
        None \<Rightarrow>
          (let row = self\<lparr>l_id := Some (next_log_id d), l_timestamp := now\<rparr>
           in ((row, True),
               d\<lparr>usage_logs := usage_logs d @ [row], next_log_id := Suc (next_log_id d)\<rparr>))
      | Some k \<Rightarrow>
          if has_row d k then
            ((self, False),
             d\<lparr>usage_logs := map (\<lambda>r. if l_id r = Some k then self else r) (usage_logs d)\<rparr>)
          else
            (let row = self\<lparr>l_timestamp := now\<rparr>
             in ((row, True),
                 d\<lparr>usage_logs := usage_logs d @ [row],
                   next_log_id := max (next_log_id d) (Suc k)\<rparr>)))"

definition save :: "ai_usage_log \<Rightarrow> db \<Rightarrow> datetime \<Rightarrow> ai_usage_log \<times> db" where
  "save self d now =
     (let self1 = (if policy_of d self \<noteq> None then check_compliance self d now else self);
          ((row, created), d1) = model_save self1 d now
      in (row, generate_usage_insights row created now d1))"

section \<open>Logging a usage event\<close>

text \<open>
  The query of \<^verbatim>\<open>log_usage_view\<close> for the active policy:
  \<^verbatim>\<open>filter(status='active', effective_from__lte=today)\<close>, then
  \<^verbatim>\<open>filter(Q(effective_until__gte=today) | Q(effective_until__isnull=True)).first()\<close>.
  The rows of \<open>policies\<close> are taken in the order of the model's \<^verbatim>\<open>Meta.ordering\<close>.
\<close>

definition active_policy :: "db \<Rightarrow> date \<Rightarrow> ai_ethics_policy option" where
  "active_policy d today =
     find (\<lambda>p. p_status p = ''active'' \<and> p_effective_from p \<le> today \<and>
                (case p_effective_until p of None \<Rightarrow> True | Some u \<Rightarrow> today \<le> u))
       (policies d)"

text \<open>The cleaned data of a valid \<^verbatim>\<open>AIUsageLogForm\<close> and the request headers the view reads.\<close>

record usage_form =
  uf_ai_tool :: string
  uf_usage_type :: string
  uf_description :: string
  uf_course_code :: string
  uf_assignment_id :: string
  uf_duration_minutes :: int
  uf_tokens_used :: int

record request_meta =
  http_x_forwarded_for :: "string option"
  remote_addr :: "string option"
  http_user_agent :: "string option"

text \<open>
  \<^verbatim>\<open>form.save(commit=False)\<close> with \<^verbatim>\<open>usage_log.user = request.user\<close>: an instance
  without a key, the compliance fields at their defaults.
\<close>

definition form_instance :: "nat \<Rightarrow> usage_form \<Rightarrow> ai_usage_log" where
  "form_instance user f =
     \<lparr>l_id = None, l_user = user, l_ai_tool = uf_ai_tool f, l_usage_type = uf_usage_type f,
      l_description = uf_description f, l_course_code = uf_course_code f,
      l_assignment_id = uf_assignment_id f, l_duration_minutes = uf_duration_minutes f,
      l_tokens_used = uf_tokens_used f, l_policy = None, l_is_compliant = True,
      l_compliance_notes = [], l_timestamp = 0, l_ip_address = None, l_user_agent = []\<rparr>"

definition client_ip :: "request_meta \<Rightarrow> string option" where
  "client_ip m =
     (case http_x_forwarded_for m of
        None \<Rightarrow> remote_addr m
      | Some x \<Rightarrow> if x = [] then remote_addr m else Some (takeWhile (\<lambda>c. c \<noteq> CHR '','') x))"

text \<open>\<^verbatim>\<open>log_usage_view\<close> on a POST with a valid form: the saved instance and the new store.\<close>

definition log_usage_view ::
  "nat \<Rightarrow> usage_form \<Rightarrow> request_meta \<Rightarrow> datetime \<Rightarrow> db \<Rightarrow> ai_usage_log \<times> db" where
  "log_usage_view user f m now d =
     (let usage_log = form_instance user f;
          usage_log = (case active_policy d (date_of now) of
                         None \<Rightarrow> usage_log
                       | Some p \<Rightarrow> usage_log\<lparr>l_policy := Some (p_id p)\<rparr>);
          usage_log = usage_log\<lparr>l_ip_address := client_ip m\<rparr>;
          usage_log = usage_log\<lparr>l_user_agent :=
                        take 500 (case http_user_agent m of None \<Rightarrow> [] | Some a \<Rightarrow> a)\<rparr>
      in save usage_log d now)"

section \<open>Insight views\<close>

datatype http_error = Http404 | MultipleObjectsReturned | RelatedObjectDoesNotExist

text \<open>
  \<^verbatim>\<open>order_by('-priority', '-generated_at')\<close>: descending in the priority string, then
  in the time of generation.
\<close>

definition order_by_priority_generated_at :: "user_insight list \<Rightarrow> user_insight list" where
  "order_by_priority_generated_at xs = rev (sort_key (\<lambda>i. (i_priority i, i_generated_at i)) xs)"

text \<open>The query set \<^verbatim>\<open>insights\<close> of \<^verbatim>\<open>insights_view\<close>, evaluated on a store.\<close>

definition insights_listing :: "db \<Rightarrow> nat \<Rightarrow> user_insight list" where
  "insights_listing d user =
     order_by_priority_generated_at
       (filter (\<lambda>i. i_user i = user \<and> \<not> i_is_dismissed i) (insights d))"

text \<open>
  \<^verbatim>\<open>insights_view\<close>: the update of the unread rows of the query set, and the rows the
  template renders. The query set is lazy, so the template reads it after the update.
\<close>

definition insights_view :: "nat \<Rightarrow> db \<Rightarrow> user_insight list \<times> db" where
  "insights_view user d =
     (let d1 = d\<lparr>insights :=
                  map (\<lambda>i. if i_user i = user \<and> \<not> i_is_dismissed i \<and> \<not> i_is_read i
                            then i\<lparr>i_is_read := True\<rparr> else i) (insights d)\<rparr>
      in (insights_listing d1 user, d1))"

text \<open>\<^verbatim>\<open>get_object_or_404(UserInsight, id=insight_id, user=request.user)\<close>\<close>

definition get_object_or_404 :: "db \<Rightarrow> nat \<Rightarrow> nat \<Rightarrow> http_error + user_insight" where
  "get_object_or_404 d insight_id user =
     (case filter (\<lambda>i. i_id i = insight_id \<and> i_user i = user) (insights d) of
        [] \<Rightarrow> Inl Http404
      | [i] \<Rightarrow> Inr i
      | _ \<Rightarrow> Inl MultipleObjectsReturned)"

text \<open>
  \<^verbatim>\<open>dismiss_insight_view\<close>: the response (an error, or the name of the view it redirects
  to) and the store after the request.
\<close>

definition dismiss_insight_view :: "nat \<Rightarrow> nat \<Rightarrow> db \<Rightarrow> (http_error + string) \<times> db" where
  "dismiss_insight_view user insight_id d =
     (case get_object_or_404 d insight_id user of
        Inl e \<Rightarrow> (Inl e, d)
      | Inr insight \<Rightarrow>
          (let insight = insight\<lparr>i_is_dismissed := True\<rparr>
           in (Inr ''dashboard:insights'',
               d\<lparr>insights := map (\<lambda>i. if i_id i = i_id insight then insight else i)
                                (insights d)\<rparr>)))"

section \<open>Data export\<close>

text \<open>
  JSON values. A date or datetime stands for the string that \<^verbatim>\<open>isoformat\<close> or
  \<^verbatim>\<open>str\<close> prints for it.
\<close>

datatype json =
    JNull
  | JBool bool
  | JInt int
  | JStr string
  | JDate date
  | JDateTime datetime
  | JList "json list"
  | JObj "(string \<times> json) list"

definition log_values :: "ai_usage_log \<Rightarrow> json" where
  "log_values r =
     JObj [(''ai_tool'', JStr (l_ai_tool r)), (''usage_type'', JStr (l_usage_type r)),
           (''description'', JStr (l_description r)), (''course_code'', JStr (l_course_code r)),
           (''duration_minutes'', JInt (l_duration_minutes r)),
           (''tokens_used'', JInt (l_tokens_used r)),
           (''is_compliant'', JBool (l_is_compliant r)),
           (''timestamp'', JDateTime (l_timestamp r))]"

definition insight_values :: "user_insight \<Rightarrow> json" where
  "insight_values i =
     JObj [(''insight_type'', JStr (i_insight_type i)), (''title'', JStr (i_title i)),
           (''message'', JStr (i_message i)), (''priority'', JStr (i_priority i)),
           (''generated_at'', JDateTime (i_generated_at i))]"

definition feedback_values :: "user_feedback \<Rightarrow> json" where
  "feedback_values f =
     JObj [(''feedback_type'', JStr (f_feedback_type f)), (''title'', JStr (f_title f)),
           (''description'', JStr (f_description f)), (''status'', JStr (f_status f)),
           (''submitted_at'', JDateTime (f_submitted_at f))]"

text \<open>
  \<^verbatim>\<open>export_data_view\<close> for the authenticated \<^verbatim>\<open>request.user\<close>: the data that
  \<^verbatim>\<open>json.dumps\<close> serialises. \<^verbatim>\<open>user.profile\<close> raises when the user has no profile.
  The logs, insights and feedback come in the order of each model's \<^verbatim>\<open>Meta.ordering\<close>,
  which the model leaves as the order of the rows.
\<close>

definition export_data_view :: "auth_user \<Rightarrow> db \<Rightarrow> http_error + json" where
  "export_data_view user d =
     (case find (\<lambda>p. pr_user p = u_id user) (profiles d) of
        None \<Rightarrow> Inl RelatedObjectDoesNotExist
      | Some profile \<Rightarrow>
          Inr (JObj
            [(''user'', JObj
                [(''username'', JStr (u_username user)), (''email'', JStr (u_email user)),
                 (''first_name'', JStr (u_first_name user)),
                 (''last_name'', JStr (u_last_name user)),
                 (''date_joined'', JDateTime (u_date_joined user))]),
             (''profile'', JObj
                [(''student_id'',
                    (case pr_student_id profile of None \<Rightarrow> JNull | Some s \<Rightarrow> JStr s)),
                 (''department'', JStr (pr_department profile)),
                 (''enrollment_date'', JDate (pr_enrollment_date profile)),
                 (''data_collection_consent'', JBool (pr_data_collection_consent profile)),
                 (''consent_date'',
                    (case pr_consent_date profile of None \<Rightarrow> JNull | Some t \<Rightarrow> JDateTime t))]),
             (''usage_logs'',
                JList (map log_values (filter (\<lambda>r. l_user r = u_id user) (usage_logs d)))),
             (''insights'',
                JList (map insight_values (filter (\<lambda>i. i_user i = u_id user) (insights d)))),
             (''feedback'',
                JList (map feedback_values (filter (\<lambda>f. f_user f = u_id user) (feedback d))))]))"

section \<open>The compliance aggregator\<close>

subsection \<open>The floating-point arithmetic of the score\<close>

text \<open>
  \<^verbatim>\<open>int((a / b) * 100)\<close> on Python integers is a correctly rounded binary64 division,
  a correctly rounded binary64 multiplication and a truncation. A finite binary64
  number is a pair \<open>(m, e)\<close> that stands for \<open>m * 2 ^ e\<close>, with \<open>\<bar>m\<bar> \<le> 2 ^ 53\<close> and
  \<open>- 1074 \<le> e\<close>.
\<close>

type_synonym float64 = "int \<times> int"

definition float_val :: "float64 \<Rightarrow> rat" where
  "float_val x = of_int (fst x) * 2 powi (snd x)"









subsection \<open>The score and the level\<close>



section \<open>Requests\<close>

text \<open>The requests of an authenticated user that write to the store or read the insights.\<close>

datatype request =
    LogUsage nat usage_form request_meta datetime
  | ViewInsights nat
  | DismissInsight nat nat
  | ExportData auth_user

fun handle :: "request \<Rightarrow> db \<Rightarrow> db" where
  "handle (LogUsage user f m now) d = snd (log_usage_view user f m now d)"
| "handle (ViewInsights user) d = snd (insights_view user d)"
| "handle (DismissInsight user insight_id) d = snd (dismiss_insight_view user insight_id d)"
| "handle (ExportData user) d = d"

fun run :: "request list \<Rightarrow> db \<Rightarrow> db" where
  "run [] d = d"
| "run (r # rs) d = run rs (handle r d)"

section \<open>Notions of the statements\<close>

text \<open>\<^verbatim>\<open>Model.save\<close> inserts the instance: it has no key, or its key has no row.\<close>

definition inserts :: "db \<Rightarrow> ai_usage_log \<Rightarrow> bool" where
  "inserts d self = (case l_id self of None \<Rightarrow> True | Some k \<Rightarrow> \<not> has_row d k)"

text \<open>The warning insights of a user that were generated at a time or after it.\<close>

definition warnings_since :: "db \<Rightarrow> nat \<Rightarrow> datetime \<Rightarrow> user_insight list" where
  "warnings_since d u t =
     filter (\<lambda>i. i_user i = u \<and> i_insight_type i = ''warning'' \<and> t \<le> i_generated_at i)
       (insights d)"

text \<open>The clock of a request that creates a usage event.\<close>

fun request_time :: "request \<Rightarrow> datetime option" where
  "request_time (LogUsage user f m now) = Some now"
| "request_time (ViewInsights user) = None"
| "request_time (DismissInsight user insight_id) = None"
| "request_time (ExportData user) = None"

text \<open>
  The primary key of the insights: no two rows share a key, and every key is below the
  next value of the sequence.
\<close>

definition insight_keys_ok :: "db \<Rightarrow> bool" where
  "insight_keys_ok d =
     (distinct (map i_id (insights d)) \<and>
      list_all (\<lambda>i. i_id i < next_insight_id d) (insights d))"

text \<open>The value under a key of a JSON object.\<close>

fun json_field :: "string \<Rightarrow> json \<Rightarrow> json option" where
  "json_field k (JObj vs) = map_of vs k"
| "json_field k v = None"

text \<open>The keys of a JSON object, in the order in which it is written.\<close>

fun json_keys :: "json \<Rightarrow> string list" where
  "json_keys (JObj vs) = map fst vs"
| "json_keys v = []"
section \<open>The specification's wording and example data\<close>

text \<open>
  The effective range as the specification writes it, the half-open interval from
  \<^verbatim>\<open>effective_from\<close> to \<^verbatim>\<open>effective_until\<close>, unbounded when the end is unset.
\<close>

definition in_half_open_range :: "ai_ethics_policy \<Rightarrow> date \<Rightarrow> bool" where
  "in_half_open_range p today =
     (p_effective_from p \<le> today \<and>
      (case p_effective_until p of None \<Rightarrow> True | Some u \<Rightarrow> today < u))"

text \<open>An active policy with the limits of the repository's test, in effect from day 10 to day 20.\<close>

definition test_policy :: ai_ethics_policy where
  "test_policy =
     \<lparr>p_id = 1, p_title = ''Test Policy'', p_status = ''active'', p_max_daily_usage = 5,
      p_max_weekly_usage = 20, p_effective_from = 10, p_effective_until = Some 20\<rparr>"

text \<open>
  The store of the repository's test: one user with a profile, the test policy and no
  events; and a request of that user at one o'clock on day 15.
\<close>

definition test_user :: auth_user where
  "test_user =
     \<lparr>u_id = 1, u_username = ''testuser'', u_email = ''test@example.com'', u_first_name = [],
      u_last_name = [], u_date_joined = 0\<rparr>"

definition test_profile :: user_profile where
  "test_profile =
     \<lparr>pr_user = 1, pr_student_id = None, pr_department = [], pr_enrollment_date = 0,
      pr_data_collection_consent = False, pr_consent_date = None, pr_allow_analytics = True,
      pr_email_notifications = True, pr_weekly_summary = True\<rparr>"

definition test_db :: db where
  "test_db =
     \<lparr>profiles = [test_profile], policies = [test_policy], usage_logs = [], insights = [],
      feedback = [], next_log_id = 1, next_insight_id = 1\<rparr>"

definition test_form :: usage_form where
  "test_form =
     \<lparr>uf_ai_tool = ''chatgpt'', uf_usage_type = ''code_generation'', uf_description = ''Log'',
      uf_course_code = [], uf_assignment_id = [], uf_duration_minutes = 0, uf_tokens_used = 0\<rparr>"

definition test_meta :: request_meta where
  "test_meta =
     \<lparr>http_x_forwarded_for = None, remote_addr = Some ''127.0.0.1'', http_user_agent = None\<rparr>"

definition test_now :: datetime where
  "test_now = 15 * day_us + 3600000000"

text \<open>The store after the test user has logged \<open>n\<close> events at that time.\<close>

definition logged :: "nat \<Rightarrow> db" where
  "logged n = run (replicate n (LogUsage 1 test_form test_meta test_now)) test_db"

text \<open>The fifth and the sixth event of the test user, as \<^verbatim>\<open>log_usage_view\<close> saved them.\<close>

definition fifth_event :: ai_usage_log where
  "fifth_event = fst (log_usage_view 1 test_form test_meta test_now (logged 4))"

definition sixth_event :: ai_usage_log where
  "sixth_event = fst (log_usage_view 1 test_form test_meta test_now (logged 5))"

text \<open>The store with six events after an administrator has archived the policy.\<close>

definition archived_db :: db where
  "archived_db = (logged 6)\<lparr>policies := [test_policy\<lparr>p_status := ''archived''\<rparr>]\<rparr>"


text \<open>The instance that \<^verbatim>\<open>log_usage_view\<close> builds for the test user before it saves it.\<close>

definition new_event :: ai_usage_log where
  "new_event = (form_instance 1 test_form)\<lparr>l_policy := Some 1\<rparr>"

text \<open>
  A store in which the test user has 49 events of the day and no insight, and the
  request that logs one more.
\<close>

definition day_event :: "nat \<Rightarrow> ai_usage_log" where
  "day_event k =
     (form_instance 1 test_form)\<lparr>l_id := Some k, l_policy := Some 1, l_timestamp := test_now\<rparr>"

definition busy_db :: db where
  "busy_db = test_db\<lparr>usage_logs := map day_event [1..<50], next_log_id := 50\<rparr>"

definition log_request :: request where
  "log_request = LogUsage 1 test_form test_meta test_now"

text \<open>
  A store with two insights of the test user and one of another user, and requests that
  follow a dismissal.
\<close>

definition insight_ex :: "nat \<Rightarrow> nat \<Rightarrow> user_insight" where
  "insight_ex k u =
     \<lparr>i_id = k, i_user = u, i_insight_type = ''usage_pattern'', i_title = ''High Usage'',
      i_message = ''You have been using AI tools frequently.'', i_priority = ''high'',
      i_related_usage_logs = [], i_is_read = False, i_is_dismissed = False,
      i_generated_at = test_now, i_expires_at = None\<rparr>"

definition insights_db :: db where
  "insights_db =
     test_db\<lparr>insights := [insight_ex 1 1, insight_ex 2 1, insight_ex 3 2],
             next_insight_id := 4\<rparr>"

definition later_requests :: "request list" where
  "later_requests = [ViewInsights 1, log_request, DismissInsight 2 1, ViewInsights 1]"

text \<open>
  A store that the test user shares with a second user, and the same store without the
  rows of the second user.
\<close>

definition feedback_ex :: "nat \<Rightarrow> user_feedback" where
  "feedback_ex u =
     \<lparr>f_user = u, f_feedback_type = ''bug'', f_title = ''Test Bug'',
      f_description = ''This is a test bug report.'', f_url = [], f_status = ''new'',
      f_admin_response = [], f_submitted_at = test_now\<rparr>"

definition shared_db :: db where
  "shared_db =
     insights_db\<lparr>profiles := [test_profile\<lparr>pr_user := 2, pr_department := ''Physics''\<rparr>,
                             test_profile],
                 usage_logs := [day_event 1, (day_event 2)\<lparr>l_user := 2\<rparr>, day_event 3],
                 feedback := [feedback_ex 2, feedback_ex 1]\<rparr>"

definition alone_db :: db where
  "alone_db =
     insights_db\<lparr>profiles := [test_profile],
                 usage_logs := [day_event 1, day_event 3],
                 insights := [insight_ex 1 1, insight_ex 2 1],
                 feedback := [feedback_ex 1]\<rparr>"


section \<open>Facts about the store\<close>

lemma usage_logs_create_insight [simp]:
  "usage_logs (create_insight u ty ttl msg prio now d) = usage_logs d"
  by (simp add: create_insight_def)

lemma policies_create_insight [simp]:
  "policies (create_insight u ty ttl msg prio now d) = policies d"
  by (simp add: create_insight_def)

lemma usage_logs_generate [simp]:
  "usage_logs (generate_usage_insights instance created now d) = usage_logs d"
  by (simp add: generate_usage_insights_def Let_def)

lemma policies_generate [simp]:
  "policies (generate_usage_insights instance created now d) = policies d"
  by (simp add: generate_usage_insights_def Let_def)

lemma count_since_generate [simp]:
  "count_since (generate_usage_insights instance created now d) u t = count_since d u t"
  by (simp add: count_since_def)

lemma today_start_le: "today_start now \<le> now"
  by (simp add: today_start_def day_us_def)

lemma l_id_check_compliance [simp]: "l_id (check_compliance self d now) = l_id self"
  by (simp add: check_compliance_def split: option.splits)

lemma l_user_check_compliance [simp]: "l_user (check_compliance self d now) = l_user self"
  by (simp add: check_compliance_def split: option.splits)

lemma save_new:
  assumes "l_id self = None"
  shows "save self d now =
    (let self1 = (if policy_of d self \<noteq> None then check_compliance self d now else self);
         row = self1\<lparr>l_id := Some (next_log_id d), l_timestamp := now\<rparr>
     in (row, generate_usage_insights row True now
          (d\<lparr>usage_logs := usage_logs d @ [row], next_log_id := Suc (next_log_id d)\<rparr>)))"
  using assms by (simp add: save_def model_save_def Let_def)

lemma count_since_append:
  "count_since (d\<lparr>usage_logs := usage_logs d @ [row], next_log_id := k\<rparr>) u t =
     count_since d u t + (if l_user row = u \<and> t \<le> l_timestamp row then 1 else 0)"
  by (simp add: count_since_def)

lemma find_distinct_key:
  "find P xs = Some p \<Longrightarrow> distinct (map f xs) \<Longrightarrow> find (\<lambda>q. f q = f p) xs = Some p"
proof (induction xs)
  case Nil
  then show ?case by simp
next
  case (Cons x xs)
  show ?case
  proof (cases "P x")
    case True
    with Cons.prems show ?thesis by simp
  next
    case False
    with Cons.prems have fp: "find P xs = Some p" and dx: "distinct (map f xs)"
      and nx: "f x \<notin> f ` set xs" by simp_all
    from fp have "p \<in> set xs" by (auto simp: find_Some_iff)
    with nx have "f x \<noteq> f p" by auto
    with Cons.IH [OF fp dx] show ?thesis by simp
  qed
qed

lemma fst_save_verdict:
  "l_is_compliant (fst (save self d now)) =
     l_is_compliant (if policy_of d self \<noteq> None then check_compliance self d now else self) \<and>
   l_compliance_notes (fst (save self d now)) =
     l_compliance_notes (if policy_of d self \<noteq> None then check_compliance self d now else self)"
  by (simp add: save_def model_save_def Let_def split: option.splits)

lemma fst_save_stored:
  "fst (save self d now) \<in> set (usage_logs (snd (save self d now)))"
  by (auto simp: save_def model_save_def Let_def has_row_def list_ex_iff image_iff
      split: option.splits)

lemma active_policy_is_active:
  "active_policy d today = Some p \<Longrightarrow> is_active p today"
  by (auto simp: active_policy_def is_active_def find_Some_iff split: option.splits)

lemma active_policy_policy_of:
  assumes "active_policy d today = Some p" "distinct (map p_id (policies d))"
    "l_policy self = Some (p_id p)"
  shows "policy_of d self = Some p"
  using assms find_distinct_key [of _ "policies d" p p_id]
  by (simp add: policy_of_def active_policy_def)

lemma insights_generate:
  "insights (generate_usage_insights instance True now d) =
     insights d @
     (if 50 \<le> count_since d (l_user instance) (today_start now) \<and>
         \<not> warned_today d (l_user instance) (today_start now)
      then [\<lparr>i_id = next_insight_id d, i_user = l_user instance, i_insight_type = ''warning'',
             i_title = ''High AI Usage Today'',
             i_message = ''You have logged '' @
               str_int (count_since d (l_user instance) (today_start now)) @
               '' AI interactions today. Consider taking breaks and reflecting on your learning process.'',
             i_priority = ''high'', i_related_usage_logs = [], i_is_read = False,
             i_is_dismissed = False, i_generated_at = now, i_expires_at = None\<rparr>]
      else []) @
     (if count_all d (l_user instance) \<in> set milestones
      then [\<lparr>i_id = (if 50 \<le> count_since d (l_user instance) (today_start now) \<and>
                        \<not> warned_today d (l_user instance) (today_start now)
                     then Suc (next_insight_id d) else next_insight_id d),
             i_user = l_user instance, i_insight_type = ''achievement'',
             i_title = ''Milestone: '' @ str_nat (count_all d (l_user instance)) @
               '' AI Interactions!'',
             i_message = ''Congratulations! You have logged '' @
               str_nat (count_all d (l_user instance)) @
               '' AI interactions. Keep learning responsibly!'',
             i_priority = ''medium'', i_related_usage_logs = [], i_is_read = False,
             i_is_dismissed = False, i_generated_at = now, i_expires_at = None\<rparr>]
      else [])"
  by (simp add: generate_usage_insights_def Let_def create_insight_def count_all_def)

lemma generate_not_created [simp]: "generate_usage_insights instance False now d = d"
  by (simp add: generate_usage_insights_def)

lemma save_inserts:
  assumes "inserts d self"
  shows "\<exists>row d1. save self d now = (row, generate_usage_insights row True now d1) \<and>
     l_user row = l_user self \<and> l_timestamp row = now \<and>
     usage_logs d1 = usage_logs d @ [row] \<and> insights d1 = insights d \<and>
     next_insight_id d1 = next_insight_id d"
  using assms
  by (auto simp: inserts_def save_def model_save_def Let_def split: option.splits)

lemma save_updates:
  assumes "\<not> inserts d self"
  shows "insights (snd (save self d now)) = insights d"
    and "next_insight_id (snd (save self d now)) = next_insight_id d"
  using assms
  by (auto simp: inserts_def save_def model_save_def Let_def split: option.splits)

lemma count_all_append:
  "usage_logs d1 = usage_logs d @ [row] \<Longrightarrow>
     count_all d1 u = count_all d u + (if l_user row = u then 1 else 0)"
  by (simp add: count_all_def)

lemma count_all_generate [simp]:
  "count_all (generate_usage_insights instance created now d) u = count_all d u"
  by (simp add: count_all_def)

lemma warned_today_cong:
  "insights d1 = insights d \<Longrightarrow> warned_today d1 u t = warned_today d u t"
  by (simp add: warned_today_def)

lemma str_nat_milestones:
  "map str_nat milestones = [''10'', ''50'', ''100'', ''250'', ''500'', ''1000'']"
  by (simp add: milestones_def str_nat.simps digit_char_def)

lemma warned_today_iff: "warned_today d u t \<longleftrightarrow> warnings_since d u t \<noteq> []"
  by (auto simp: warned_today_def warnings_since_def list_ex_iff filter_empty_conv)

lemma count_since_append_row:
  "usage_logs d1 = usage_logs d @ [row] \<Longrightarrow>
     count_since d1 u t = count_since d u t + (if l_user row = u \<and> t \<le> l_timestamp row then 1 else 0)"
  by (simp add: count_since_def)

lemma save_new_insights:
  "\<exists>new. insights (snd (save self d now)) = insights d @ new \<and>
     next_insight_id (snd (save self d now)) = next_insight_id d + length new \<and>
     map i_id new = [next_insight_id d ..< next_insight_id d + length new] \<and>
     (\<forall>i\<in>set new. i_user i = l_user self \<and> i_generated_at i = now \<and> \<not> i_is_dismissed i) \<and>
     length (filter (\<lambda>i. i_insight_type i = ''warning'') new) \<le> 1 \<and>
     (filter (\<lambda>i. i_insight_type i = ''warning'') new \<noteq> [] \<longrightarrow>
        warnings_since d (l_user self) (today_start now) = [])"
proof (cases "inserts d self")
  case True
  from save_inserts [OF True, of now] obtain row d1 where
    sv: "save self d now = (row, generate_usage_insights row True now d1)"
    and u: "l_user row = l_user self" and logs: "usage_logs d1 = usage_logs d @ [row]"
    and i1: "insights d1 = insights d" and n1: "next_insight_id d1 = next_insight_id d"
    by blast
  have w1: "warned_today d1 (l_user self) (today_start now) \<longleftrightarrow>
      warnings_since d (l_user self) (today_start now) \<noteq> []"
    using i1 by (simp add: warned_today_iff warnings_since_def)
  have nx: "next_insight_id (generate_usage_insights row True now d1) =
      next_insight_id d1 +
      (if 50 \<le> count_since d1 (l_user row) (today_start now) \<and>
          \<not> warned_today d1 (l_user row) (today_start now) then 1 else 0) +
      (if count_all d1 (l_user row) \<in> set milestones then 1 else 0)"
    by (simp add: generate_usage_insights_def Let_def create_insight_def count_all_def)
  show ?thesis
    by (simp add: sv insights_generate nx u i1 n1 w1 upt_rec)
next
  case False
  then show ?thesis by (simp add: save_updates)
qed

lemma log_usage_view_save:
  "\<exists>inst. log_usage_view user f m now d = save inst d now \<and> l_user inst = user"
proof -
  let ?inst = "(case active_policy d (date_of now) of
                  None \<Rightarrow> form_instance user f
                | Some p \<Rightarrow> (form_instance user f)\<lparr>l_policy := Some (p_id p)\<rparr>)
               \<lparr>l_ip_address := client_ip m,
                l_user_agent := take 500 (case http_user_agent m of None \<Rightarrow> [] | Some a \<Rightarrow> a)\<rparr>"
  have "log_usage_view user f m now d = save ?inst d now"
    by (simp add: log_usage_view_def Let_def)
  moreover have "l_user ?inst = user"
    by (simp add: form_instance_def split: option.splits)
  ultimately show ?thesis by blast
qed

lemma filter_key_le_one:
  "distinct (map f xs) \<Longrightarrow> length (filter (\<lambda>x. f x = k \<and> P x) xs) \<le> 1"
proof (induction xs)
  case Nil
  then show ?case by simp
next
  case (Cons x xs)
  show ?case
  proof (cases "f x = k")
    case True
    from Cons.prems have nx: "f x \<notin> f ` set xs" by simp
    have "f y \<noteq> k" if "y \<in> set xs" for y
      using that nx True by (metis imageI)
    then have "\<forall>y\<in>set xs. f y \<noteq> k" by blast
    then have "filter (\<lambda>x. f x = k \<and> P x) xs = []"
      by (simp add: filter_empty_conv)
    then show ?thesis by simp
  next
    case False
    with Cons show ?thesis by simp
  qed
qed

lemma dismiss_insights:
  assumes "distinct (map i_id (insights d))"
  shows "snd (dismiss_insight_view user k d) =
     d\<lparr>insights := map (\<lambda>i. if i_id i = k \<and> i_user i = user
                               then i\<lparr>i_is_dismissed := True\<rparr> else i) (insights d)\<rparr>"
proof -
  let ?m = "filter (\<lambda>i. i_id i = k \<and> i_user i = user) (insights d)"
  have le: "length ?m \<le> 1"
    using assms by (rule filter_key_le_one)
  show ?thesis
  proof (cases ?m)
    case Nil
    then have "\<forall>i\<in>set (insights d). \<not> (i_id i = k \<and> i_user i = user)"
      by (simp add: filter_empty_conv)
    then have "map (\<lambda>i. if i_id i = k \<and> i_user i = user
                         then i\<lparr>i_is_dismissed := True\<rparr> else i) (insights d) = insights d"
      by (intro map_idI) auto
    with Nil show ?thesis
      by (simp add: dismiss_insight_view_def get_object_or_404_def)
  next
    case (Cons x rest)
    with le have m: "?m = [x]" by simp
    then have "x \<in> set ?m" by simp
    then have x: "x \<in> set (insights d)" "i_id x = k" "i_user x = user" by simp_all
    from assms have inj: "inj_on i_id (set (insights d))"
      by (simp add: distinct_map)
    have uniq: "i = x" if "i \<in> set (insights d)" "i_id i = k" for i
    proof -
      from x(1) that(1) inj have "i_id i = i_id x \<Longrightarrow> i = x"
        by (rule_tac inj_onD [of i_id "set (insights d)"]) simp_all
      with that(2) x(2) show ?thesis by simp
    qed
    have eq: "map (\<lambda>i. if i_id i = k then x\<lparr>i_is_dismissed := True\<rparr> else i) (insights d) =
        map (\<lambda>i. if i_id i = k \<and> i_user i = user
                  then i\<lparr>i_is_dismissed := True\<rparr> else i) (insights d)"
    proof (rule map_cong [OF refl])
      fix i assume i: "i \<in> set (insights d)"
      show "(if i_id i = k then x\<lparr>i_is_dismissed := True\<rparr> else i) =
          (if i_id i = k \<and> i_user i = user then i\<lparr>i_is_dismissed := True\<rparr> else i)"
      proof (cases "i_id i = k")
        case True
        with i have "i = x" by (rule uniq)
        with True x(3) show ?thesis by simp
      next
        case False
        then show ?thesis by simp
      qed
    qed
    have g: "get_object_or_404 d k user = Inr x"
      using m by (simp add: get_object_or_404_def)
    have "snd (dismiss_insight_view user k d) =
        d\<lparr>insights := map (\<lambda>i. if i_id i = k then x\<lparr>i_is_dismissed := True\<rparr> else i)
                          (insights d)\<rparr>"
      by (simp add: dismiss_insight_view_def g Let_def x(2))
    then show ?thesis by (simp only: eq)
  qed
qed

lemma dismiss_not_found:
  "\<forall>i\<in>set (insights d). i_id i = k \<longrightarrow> i_user i \<noteq> user \<Longrightarrow>
     dismiss_insight_view user k d = (Inl Http404, d)"
proof -
  assume "\<forall>i\<in>set (insights d). i_id i = k \<longrightarrow> i_user i \<noteq> user"
  then have "filter (\<lambda>i. i_id i = k \<and> i_user i = user) (insights d) = []"
    by (auto simp: filter_empty_conv)
  then show ?thesis
    by (simp add: dismiss_insight_view_def get_object_or_404_def)
qed

lemma handle_insights_cases:
  assumes "distinct (map i_id (insights d))"
  shows "(\<exists>user f m now new. r = LogUsage user f m now \<and>
            insights (handle r d) = insights d @ new \<and>
            next_insight_id (handle r d) = next_insight_id d + length new \<and>
            map i_id new = [next_insight_id d ..< next_insight_id d + length new] \<and>
            (\<forall>i\<in>set new. i_user i = user \<and> i_generated_at i = now \<and> \<not> i_is_dismissed i) \<and>
            length (filter (\<lambda>i. i_insight_type i = ''warning'') new) \<le> 1 \<and>
            (filter (\<lambda>i. i_insight_type i = ''warning'') new \<noteq> [] \<longrightarrow>
               warnings_since d user (today_start now) = [])) \<or>
         (request_time r = None \<and>
          next_insight_id (handle r d) = next_insight_id d \<and>
          (\<exists>g. insights (handle r d) = map g (insights d) \<and>
             (\<forall>i. i_id (g i) = i_id i \<and> i_user (g i) = i_user i \<and>
                  i_insight_type (g i) = i_insight_type i \<and>
                  i_generated_at (g i) = i_generated_at i \<and>
                  (i_is_dismissed i \<longrightarrow> i_is_dismissed (g i)))))"
proof (cases r)
  case (LogUsage user f m now)
  obtain inst where lv: "log_usage_view user f m now d = save inst d now"
    and u: "l_user inst = user"
    using log_usage_view_save by blast
  from save_new_insights [of inst d now] u lv LogUsage show ?thesis
    by auto
next
  case (ViewInsights user)
  let ?g = "\<lambda>i. if i_user i = user \<and> \<not> i_is_dismissed i \<and> \<not> i_is_read i
                then i\<lparr>i_is_read := True\<rparr> else i"
  have a: "insights (handle r d) = map ?g (insights d)"
    by (simp add: ViewInsights insights_view_def Let_def)
  have b: "next_insight_id (handle r d) = next_insight_id d"
    by (simp add: ViewInsights insights_view_def Let_def)
  have c: "request_time r = None"
    by (simp add: ViewInsights)
  have e: "\<forall>i. i_id (?g i) = i_id i \<and> i_user (?g i) = i_user i \<and>
      i_insight_type (?g i) = i_insight_type i \<and> i_generated_at (?g i) = i_generated_at i \<and>
      (i_is_dismissed i \<longrightarrow> i_is_dismissed (?g i))"
    by simp
  from a b c e show ?thesis by blast
next
  case (DismissInsight user k)
  let ?g = "\<lambda>i. if i_id i = k \<and> i_user i = user then i\<lparr>i_is_dismissed := True\<rparr> else i"
  have a: "insights (handle r d) = map ?g (insights d)"
    by (simp add: DismissInsight dismiss_insights [OF assms])
  have b: "next_insight_id (handle r d) = next_insight_id d"
    by (simp add: DismissInsight dismiss_insights [OF assms])
  have c: "request_time r = None"
    by (simp add: DismissInsight)
  have e: "\<forall>i. i_id (?g i) = i_id i \<and> i_user (?g i) = i_user i \<and>
      i_insight_type (?g i) = i_insight_type i \<and> i_generated_at (?g i) = i_generated_at i \<and>
      (i_is_dismissed i \<longrightarrow> i_is_dismissed (?g i))"
    by simp
  from a b c e show ?thesis by blast
next
  case (ExportData user)
  let ?g = "\<lambda>i::user_insight. i"
  have a: "insights (handle r d) = map ?g (insights d)"
    by (simp add: ExportData)
  have b: "next_insight_id (handle r d) = next_insight_id d"
    by (simp add: ExportData)
  have c: "request_time r = None"
    by (simp add: ExportData)
  from a b c show ?thesis by blast
qed

lemma insight_keys_ok_handle:
  assumes "insight_keys_ok d"
  shows "insight_keys_ok (handle r d)"
proof -
  from assms have dist: "distinct (map i_id (insights d))"
    and below: "\<forall>i\<in>set (insights d). i_id i < next_insight_id d"
    by (simp_all add: insight_keys_ok_def list_all_iff)
  from handle_insights_cases [OF dist, of r] show ?thesis
  proof (elim disjE exE conjE)
    fix user f m now new
    assume i: "insights (handle r d) = insights d @ new"
      and n: "next_insight_id (handle r d) = next_insight_id d + length new"
      and ids: "map i_id new = [next_insight_id d ..< next_insight_id d + length new]"
    have "set (map i_id new) = {next_insight_id d ..< next_insight_id d + length new}"
      by (simp add: ids)
    then have new_ids: "\<forall>j\<in>set new. next_insight_id d \<le> i_id j \<and>
        i_id j < next_insight_id d + length new"
      by auto
    have "distinct (map i_id new)" by (simp add: ids)
    moreover have "set (map i_id (insights d)) \<inter> set (map i_id new) = {}"
      using below new_ids by fastforce
    ultimately have "distinct (map i_id (insights d @ new))"
      using dist by simp
    moreover have "\<forall>j\<in>set (insights d @ new). i_id j < next_insight_id d + length new"
      using below new_ids by fastforce
    ultimately show ?thesis
      by (simp add: insight_keys_ok_def list_all_iff i n)
  next
    fix g
    assume n: "next_insight_id (handle r d) = next_insight_id d"
      and i: "insights (handle r d) = map g (insights d)"
      and g: "\<forall>i. i_id (g i) = i_id i \<and> i_user (g i) = i_user i \<and>
                  i_insight_type (g i) = i_insight_type i \<and>
                  i_generated_at (g i) = i_generated_at i \<and>
                  (i_is_dismissed i \<longrightarrow> i_is_dismissed (g i))"
    from g have idg: "i_id \<circ> g = i_id"
      by (simp add: fun_eq_iff)
    from g have "\<forall>j\<in>set (insights d). i_id (g j) < next_insight_id d"
      using below by simp
    then show ?thesis
      using dist by (simp add: insight_keys_ok_def list_all_iff i n idg)
  qed
qed

lemma insight_keys_ok_run:
  "insight_keys_ok d \<Longrightarrow> insight_keys_ok (run rs d)"
  by (induction rs arbitrary: d) (simp_all add: insight_keys_ok_handle)

lemma warnings_handle:
  assumes ok: "insight_keys_ok d"
    and day: "\<forall>t. request_time r = Some t \<longrightarrow> today_start t = s"
  shows "length (warnings_since (handle r d) u s) \<le> max 1 (length (warnings_since d u s))"
proof -
  from ok have dist: "distinct (map i_id (insights d))"
    by (simp add: insight_keys_ok_def)
  let ?W = "\<lambda>i. i_user i = u \<and> i_insight_type i = ''warning'' \<and> s \<le> i_generated_at i"
  from handle_insights_cases [OF dist, of r] show ?thesis
  proof (elim disjE exE conjE)
    fix user f m now new
    assume r: "r = LogUsage user f m now"
      and i: "insights (handle r d) = insights d @ new"
      and new: "\<forall>i\<in>set new. i_user i = user \<and> i_generated_at i = now \<and> \<not> i_is_dismissed i"
      and one: "length (filter (\<lambda>i. i_insight_type i = ''warning'') new) \<le> 1"
      and fresh: "filter (\<lambda>i. i_insight_type i = ''warning'') new \<noteq> [] \<longrightarrow>
               warnings_since d user (today_start now) = []"
    from r day have s: "today_start now = s" by simp
    have split: "warnings_since (handle r d) u s = warnings_since d u s @ filter ?W new"
      by (simp add: warnings_since_def i)
    show ?thesis
    proof (cases "user = u \<and> filter (\<lambda>i. i_insight_type i = ''warning'') new \<noteq> []")
      case True
      with fresh s have "warnings_since d u s = []" by simp
      moreover have "length (filter ?W new) \<le> length (filter (\<lambda>i. i_insight_type i = ''warning'') new)"
      proof -
        have "filter ?W new = filter (\<lambda>i. i_user i = u \<and> s \<le> i_generated_at i)
            (filter (\<lambda>i. i_insight_type i = ''warning'') new)"
          by (simp add: conj_commute conj_left_commute)
        then show ?thesis by (simp del: filter_filter)
      qed
      ultimately show ?thesis using one by (simp add: split)
    next
      case False
      have "filter ?W new = []"
      proof (cases "user = u")
        case True
        with False have "filter (\<lambda>i. i_insight_type i = ''warning'') new = []" by simp
        then show ?thesis by (auto simp: filter_empty_conv)
      next
        case False
        with new show ?thesis by (auto simp: filter_empty_conv)
      qed
      then show ?thesis by (simp add: split)
    qed
  next
    fix g
    assume i: "insights (handle r d) = map g (insights d)"
      and g: "\<forall>i. i_id (g i) = i_id i \<and> i_user (g i) = i_user i \<and>
                  i_insight_type (g i) = i_insight_type i \<and>
                  i_generated_at (g i) = i_generated_at i \<and>
                  (i_is_dismissed i \<longrightarrow> i_is_dismissed (g i))"
    have "warnings_since (handle r d) u s = map g (warnings_since d u s)"
      using g by (simp add: warnings_since_def i filter_map comp_def)
    then show ?thesis by simp
  qed
qed

lemma warnings_run:
  "insight_keys_ok d \<Longrightarrow>
   \<forall>r\<in>set rs. \<forall>t. request_time r = Some t \<longrightarrow> today_start t = s \<Longrightarrow>
   length (warnings_since (run rs d) u s) \<le> max 1 (length (warnings_since d u s))"
proof (induction rs arbitrary: d)
  case Nil
  then show ?case by simp
next
  case (Cons r rs)
  from Cons.prems have ok: "insight_keys_ok (handle r d)"
    by (simp add: insight_keys_ok_handle)
  from Cons.prems have r: "\<forall>t. request_time r = Some t \<longrightarrow> today_start t = s"
    and rs: "\<forall>r\<in>set rs. \<forall>t. request_time r = Some t \<longrightarrow> today_start t = s"
    by simp_all
  have "length (warnings_since (run rs (handle r d)) u s)
      \<le> max 1 (length (warnings_since (handle r d) u s))"
    using ok rs by (rule Cons.IH)
  also have "\<dots> \<le> max 1 (max 1 (length (warnings_since d u s)))"
    using warnings_handle [OF Cons.prems(1) r, of u] by simp
  finally show ?case by simp
qed

lemma count_since_save_inserts:
  assumes "inserts d self"
  shows "count_since (snd (save self d now)) u (today_start now) =
     count_since d u (today_start now) + (if l_user self = u then 1 else 0)"
proof -
  from save_inserts [OF assms, of now] obtain row d1 where
    sv: "save self d now = (row, generate_usage_insights row True now d1)"
    and u: "l_user row = l_user self" and t: "l_timestamp row = now"
    and logs: "usage_logs d1 = usage_logs d @ [row]"
    by blast
  show ?thesis
    using count_since_append_row [OF logs, of u "today_start now"] u t
    by (simp add: sv today_start_le)
qed

lemma busy_db_facts:
  "inserts busy_db new_event" "l_user new_event = 1"
  "count_since busy_db 1 (today_start test_now) = 49"
  "warnings_since busy_db 1 (today_start test_now) = []"
  "insights busy_db = []" "next_insight_id busy_db = 1"
  "insight_keys_ok busy_db"
  by (simp_all add: busy_db_def test_db_def new_event_def form_instance_def inserts_def
      count_since_def warnings_since_def insight_keys_ok_def filter_map comp_def day_event_def
      today_start_def test_now_def day_us_def)

lemma set_order_by [simp]: "set (order_by_priority_generated_at xs) = set xs"
  by (simp add: order_by_priority_generated_at_def)

lemma set_insights_listing:
  "set (insights_listing d user) = {i \<in> set (insights d). i_user i = user \<and> \<not> i_is_dismissed i}"
  by (auto simp: insights_listing_def)

text \<open>The invariant behind a dismissal: the key is in use and its rows are dismissed.\<close>

lemma dismissed_handle:
  assumes ok: "insight_keys_ok d" and k: "k < next_insight_id d"
    and dis: "\<forall>i\<in>set (insights d). i_id i = k \<longrightarrow> i_is_dismissed i"
  shows "k < next_insight_id (handle r d) \<and>
    (\<forall>i\<in>set (insights (handle r d)). i_id i = k \<longrightarrow> i_is_dismissed i)"
proof -
  from ok have dist: "distinct (map i_id (insights d))"
    by (simp add: insight_keys_ok_def)
  from handle_insights_cases [OF dist, of r] show ?thesis
  proof (elim disjE exE conjE)
    fix user f m now new
    assume i: "insights (handle r d) = insights d @ new"
      and n: "next_insight_id (handle r d) = next_insight_id d + length new"
      and ids: "map i_id new = [next_insight_id d ..< next_insight_id d + length new]"
    have "set (map i_id new) = {next_insight_id d ..< next_insight_id d + length new}"
      by (simp add: ids)
    then have "\<forall>j\<in>set new. next_insight_id d \<le> i_id j" by auto
    with k have "\<forall>j\<in>set new. i_id j \<noteq> k" by fastforce
    with dis k show ?thesis by (auto simp: i n)
  next
    fix g
    assume n: "next_insight_id (handle r d) = next_insight_id d"
      and i: "insights (handle r d) = map g (insights d)"
      and g: "\<forall>i. i_id (g i) = i_id i \<and> i_user (g i) = i_user i \<and>
                  i_insight_type (g i) = i_insight_type i \<and>
                  i_generated_at (g i) = i_generated_at i \<and>
                  (i_is_dismissed i \<longrightarrow> i_is_dismissed (g i))"
    from dis g have "\<forall>j\<in>set (insights d). i_id (g j) = k \<longrightarrow> i_is_dismissed (g j)"
      by simp
    with k show ?thesis by (simp add: i n)
  qed
qed

lemma dismissed_run:
  "insight_keys_ok d \<Longrightarrow> k < next_insight_id d \<Longrightarrow>
   \<forall>i\<in>set (insights d). i_id i = k \<longrightarrow> i_is_dismissed i \<Longrightarrow>
   \<forall>i\<in>set (insights (run rs d)). i_id i = k \<longrightarrow> i_is_dismissed i"
proof (induction rs arbitrary: d)
  case Nil
  then show ?case by simp
next
  case (Cons r rs)
  from dismissed_handle [OF Cons.prems, of r] insight_keys_ok_handle [OF Cons.prems(1), of r]
  show ?case by (simp add: Cons.IH)
qed

lemma run_snoc: "run (rs @ [r]) d = handle r (run rs d)"
  by (induction rs arbitrary: d) simp_all

lemma fst_insights_view:
  "fst (insights_view user d) = insights_listing (snd (insights_view user d)) user"
  by (simp add: insights_view_def Let_def)

lemma insights_db_facts:
  "insight_keys_ok insights_db" "insight_ex 2 1 \<in> set (insights insights_db)"
  "i_id (insight_ex 2 1) = 2" "i_user (insight_ex 2 1) = 1"
  "\<forall>j\<in>set (insights insights_db). i_id j = 3 \<longrightarrow> i_user j \<noteq> 1"
  "\<forall>j\<in>set (insights insights_db). i_id j = 7 \<longrightarrow> i_user j \<noteq> 1"
  by (simp_all add: insights_db_def test_db_def insight_ex_def insight_keys_ok_def)

lemma mark_read_cases:
  "(if i_user i = user \<and> \<not> i_is_dismissed i \<and> \<not> i_is_read i
    then i\<lparr>i_is_read := True\<rparr> else i) =
   (if i_user i = user \<and> \<not> i_is_dismissed i then i\<lparr>i_is_read := True\<rparr> else i)"
  by (cases "i_is_read i") simp_all

lemma insights_db_rows: "insights insights_db = [insight_ex 1 1, insight_ex 2 1, insight_ex 3 2]"
  by (simp add: insights_db_def)

lemma insights_db_marked:
  "map (\<lambda>i. if i_user i = 1 \<and> \<not> i_is_dismissed i \<and> \<not> i_is_read i
             then i\<lparr>i_is_read := True\<rparr> else i)
     [insight_ex 1 1, insight_ex 2 1, insight_ex 3 2] =
   [(insight_ex 1 1)\<lparr>i_is_read := True\<rparr>, (insight_ex 2 1)\<lparr>i_is_read := True\<rparr>,
    insight_ex 3 2]"
  by (simp add: insight_ex_def)

lemma find_filter_head:
  "find P xs = (case filter P xs of [] \<Rightarrow> None | x # _ \<Rightarrow> Some x)"
  by (induction xs) simp_all

lemma find_filter_cong:
  "filter P xs = filter P ys \<Longrightarrow> find P xs = find P ys"
  by (simp add: find_filter_head)

lemma shared_db_facts:
  "filter (\<lambda>p. pr_user p = u_id test_user) (profiles shared_db) =
     filter (\<lambda>p. pr_user p = u_id test_user) (profiles alone_db)"
  "filter (\<lambda>r. l_user r = u_id test_user) (usage_logs shared_db) =
     filter (\<lambda>r. l_user r = u_id test_user) (usage_logs alone_db)"
  "filter (\<lambda>i. i_user i = u_id test_user) (insights shared_db) =
     filter (\<lambda>i. i_user i = u_id test_user) (insights alone_db)"
  "filter (\<lambda>f. f_user f = u_id test_user) (feedback shared_db) =
     filter (\<lambda>f. f_user f = u_id test_user) (feedback alone_db)"
  "filter (\<lambda>p. pr_user p = u_id test_user) (profiles shared_db) \<noteq> []"
  "filter (\<lambda>r. l_user r = u_id test_user) (usage_logs shared_db) = [day_event 1, day_event 3]"
  by (simp_all add: shared_db_def alone_db_def insights_db_def test_db_def test_user_def
      test_profile_def day_event_def form_instance_def insight_ex_def feedback_ex_def)





















section \<open>Active policies\<close>

text \<open>
  C5, as amended. \<^verbatim>\<open>is_active()\<close> is true if and only if the status is \<^verbatim>\<open>active\<close>,
  \<^verbatim>\<open>effective_from\<close> is today or earlier, and \<^verbatim>\<open>effective_until\<close> is unset or is
  today or later: the last day of the range is a day on which the policy is active.
\<close>

theorem is_active_iff:
  "is_active p today \<longleftrightarrow>
     p_status p = ''active'' \<and> p_effective_from p \<le> today \<and>
     (case p_effective_until p of None \<Rightarrow> True | Some u \<Rightarrow> today \<le> u)"
  by (auto simp: is_active_def split: option.splits)

theorem is_active_iff_witness:
  "is_active test_policy 20 \<and> is_active test_policy 10 \<and> \<not> is_active test_policy 21 \<and>
   \<not> is_active test_policy 9 \<and> \<not> is_active (test_policy\<lparr>p_status := ''draft''\<rparr>) 15 \<and>
   is_active (test_policy\<lparr>p_effective_until := None\<rparr>) 1000"
  using is_active_iff [of test_policy 20] is_active_iff [of test_policy 10]
    is_active_iff [of test_policy 21] is_active_iff [of test_policy 9]
    is_active_iff [of "test_policy\<lparr>p_status := ''draft''\<rparr>" 15]
    is_active_iff [of "test_policy\<lparr>p_effective_until := None\<rparr>" 1000]
  by (simp add: test_policy_def)

text \<open>
  C5 as the specification states it fails on the day \<^verbatim>\<open>effective_until\<close>: the policy
  of the example ends on day 20 and is active on day 20, which the half-open interval
  from day 10 to day 20 does not contain.
\<close>

theorem is_active_half_open_counterexample:
  "is_active test_policy 20 \<noteq>
     (p_status test_policy = ''active'' \<and> in_half_open_range test_policy 20)"
  by (simp add: is_active_def in_half_open_range_def test_policy_def)

section \<open>The policy evaluator\<close>





text \<open>
  C2. A new event is saved under an active policy. The check runs before the row is
  written, so the daily count it compares with \<^verbatim>\<open>max_daily_usage\<close> is the number of
  the user's events of the day that the store held before this one: the event is
  compliant if and only if that count and the weekly count are below their limits,
  and the store holds one more event of the day once the row is written. With a daily
  limit of 5 and 5 events of the day in the store, the sixth is marked non-compliant
  with the daily-limit note.
\<close>

theorem save_counts_prior_events:
  "l_id self = None \<and> policy_of d self = Some p \<and> is_active p (date_of now) \<longrightarrow>
     (l_is_compliant (fst (save self d now)) \<longleftrightarrow>
        count_since d (l_user self) (today_start now) < p_max_daily_usage p \<and>
        count_since d (l_user self) (week_start now) < p_max_weekly_usage p) \<and>
     count_since (snd (save self d now)) (l_user self) (today_start now) =
       count_since d (l_user self) (today_start now) + 1 \<and>
     fst (save self d now) \<in> set (usage_logs (snd (save self d now))) \<and>
     (p_max_daily_usage p = 5 \<and> count_since d (l_user self) (today_start now) = 5 \<longrightarrow>
        \<not> l_is_compliant (fst (save self d now)) \<and>
        l_compliance_notes (fst (save self d now)) = ''Exceeded daily usage limit of 5'')"
proof (intro impI, elim conjE)
  assume new: "l_id self = None" and pol: "policy_of d self = Some p"
    and act: "is_active p (date_of now)"
  let ?c = "check_compliance self d now"
  let ?row = "?c\<lparr>l_id := Some (next_log_id d), l_timestamp := now\<rparr>"
  have sv: "save self d now =
      (?row, generate_usage_insights ?row True now
         (d\<lparr>usage_logs := usage_logs d @ [?row], next_log_id := Suc (next_log_id d)\<rparr>))"
    using new pol by (simp add: save_new Let_def)
  have verdict: "l_is_compliant ?c \<longleftrightarrow>
        count_since d (l_user self) (today_start now) < p_max_daily_usage p \<and>
        count_since d (l_user self) (week_start now) < p_max_weekly_usage p"
    using pol act by (auto simp: check_compliance_def)
  have five: "str_int 5 = ''5''"
    by (simp add: str_int_def str_nat.simps digit_char_def)
  have daily: "p_max_daily_usage p = 5 \<Longrightarrow> count_since d (l_user self) (today_start now) = 5 \<Longrightarrow>
      l_compliance_notes ?c = ''Exceeded daily usage limit of 5''"
    using pol act five by (simp add: check_compliance_def)
  show "(l_is_compliant (fst (save self d now)) \<longleftrightarrow>
        count_since d (l_user self) (today_start now) < p_max_daily_usage p \<and>
        count_since d (l_user self) (week_start now) < p_max_weekly_usage p) \<and>
     count_since (snd (save self d now)) (l_user self) (today_start now) =
       count_since d (l_user self) (today_start now) + 1 \<and>
     fst (save self d now) \<in> set (usage_logs (snd (save self d now))) \<and>
     (p_max_daily_usage p = 5 \<and> count_since d (l_user self) (today_start now) = 5 \<longrightarrow>
        \<not> l_is_compliant (fst (save self d now)) \<and>
        l_compliance_notes (fst (save self d now)) = ''Exceeded daily usage limit of 5'')"
    using verdict daily by (simp add: sv count_since_append today_start_le)
qed

theorem save_counts_prior_events_witness:
  "l_id new_event = None \<and> policy_of (logged 5) new_event = Some test_policy \<and>
   is_active test_policy (date_of test_now) \<and> p_max_daily_usage test_policy = 5 \<and>
   count_since (logged 5) (l_user new_event) (today_start test_now) = 5 \<and>
   \<not> l_is_compliant (fst (save new_event (logged 5) test_now)) \<and>
   l_compliance_notes (fst (save new_event (logged 5) test_now)) =
     ''Exceeded daily usage limit of 5'' \<and>
   count_since (snd (save new_event (logged 5) test_now)) (l_user new_event)
     (today_start test_now) = 6"
proof -
  have h: "l_id new_event = None" "policy_of (logged 5) new_event = Some test_policy"
    "is_active test_policy (date_of test_now)" "p_max_daily_usage test_policy = 5"
    "count_since (logged 5) (l_user new_event) (today_start test_now) = 5"
    by code_simp+
  show ?thesis
    using save_counts_prior_events [of new_event "logged 5" test_policy test_now] h
    by simp
qed

text \<open>
  C3, as amended. \<^verbatim>\<open>log_usage_view\<close> inserts the event with the verdict of that
  moment: compliant and without notes when no policy is active, and otherwise the
  verdict of the check against the active policy and the counts of that moment. Every
  save of a log that references a policy, the first one and any later one alike, sets
  the verdict and the notes to what \<^verbatim>\<open>check_compliance\<close> computes from the store and
  the clock at that save; a save of a log without a policy leaves both as they are. The
  saved instance is the row in the store.
\<close>

theorem save_recomputes_verdict:
  "(active_policy d (date_of now) = None \<longrightarrow>
      l_is_compliant (fst (log_usage_view user f m now d)) \<and>
      l_compliance_notes (fst (log_usage_view user f m now d)) = []) \<and>
   (\<forall>p. active_policy d (date_of now) = Some p \<and> distinct (map p_id (policies d)) \<longrightarrow>
      l_policy (fst (log_usage_view user f m now d)) = Some (p_id p) \<and>
      (l_is_compliant (fst (log_usage_view user f m now d)) \<longleftrightarrow>
         count_since d user (today_start now) < p_max_daily_usage p \<and>
         count_since d user (week_start now) < p_max_weekly_usage p)) \<and>
   (policy_of d self \<noteq> None \<longrightarrow>
      l_is_compliant (fst (save self d now)) = l_is_compliant (check_compliance self d now) \<and>
      l_compliance_notes (fst (save self d now)) =
        l_compliance_notes (check_compliance self d now)) \<and>
   (policy_of d self = None \<longrightarrow>
      l_is_compliant (fst (save self d now)) = l_is_compliant self \<and>
      l_compliance_notes (fst (save self d now)) = l_compliance_notes self) \<and>
   fst (save self d now) \<in> set (usage_logs (snd (save self d now)))"
proof (intro conjI allI impI)
  assume none: "active_policy d (date_of now) = None"
  have "policy_of d ((form_instance user f)\<lparr>l_ip_address := a, l_user_agent := b\<rparr>) = None" for a b
    by (simp add: policy_of_def form_instance_def)
  with none show "l_is_compliant (fst (log_usage_view user f m now d))"
    and "l_compliance_notes (fst (log_usage_view user f m now d)) = []"
    by (simp_all add: log_usage_view_def fst_save_verdict form_instance_def)
next
  fix p
  assume a: "active_policy d (date_of now) = Some p \<and> distinct (map p_id (policies d))"
  let ?inst = "(form_instance user f)\<lparr>l_policy := Some (p_id p), l_ip_address := client_ip m,
      l_user_agent := take 500 (case http_user_agent m of None \<Rightarrow> [] | Some a \<Rightarrow> a)\<rparr>"
  have lv: "log_usage_view user f m now d = save ?inst d now"
    using a by (simp add: log_usage_view_def)
  have pol: "policy_of d ?inst = Some p"
    using a by (intro active_policy_policy_of [of d "date_of now"]) simp_all
  have act: "is_active p (date_of now)"
    using a active_policy_is_active by blast
  have u: "l_user ?inst = user" by (simp add: form_instance_def)
  show "l_policy (fst (log_usage_view user f m now d)) = Some (p_id p)"
    by (simp add: lv save_def model_save_def Let_def check_compliance_def
        split: option.splits)
  show "l_is_compliant (fst (log_usage_view user f m now d)) \<longleftrightarrow>
         count_since d user (today_start now) < p_max_daily_usage p \<and>
         count_since d user (week_start now) < p_max_weekly_usage p"
    using pol act u by (auto simp: lv fst_save_verdict check_compliance_def)
qed (simp_all add: fst_save_verdict fst_save_stored)

theorem save_recomputes_verdict_witness:
  "active_policy (logged 5) (date_of test_now) = Some test_policy \<and>
   distinct (map p_id (policies (logged 5))) \<and>
   \<not> l_is_compliant (fst (log_usage_view 1 test_form test_meta test_now (logged 5))) \<and>
   active_policy archived_db (date_of test_now) = None \<and>
   l_is_compliant (fst (log_usage_view 1 test_form test_meta test_now archived_db)) \<and>
   l_compliance_notes (fst (log_usage_view 1 test_form test_meta test_now archived_db)) = [] \<and>
   policy_of (logged 5) fifth_event \<noteq> None \<and>
   l_is_compliant (fst (save fifth_event (logged 5) test_now)) =
     l_is_compliant (check_compliance fifth_event (logged 5) test_now) \<and>
   fst (save fifth_event (logged 5) test_now)
     \<in> set (usage_logs (snd (save fifth_event (logged 5) test_now)))"
proof -
  have h: "active_policy (logged 5) (date_of test_now) = Some test_policy"
    "distinct (map p_id (policies (logged 5)))"
    "active_policy archived_db (date_of test_now) = None"
    "policy_of (logged 5) fifth_event \<noteq> None"
    "\<not> (count_since (logged 5) 1 (today_start test_now) < p_max_daily_usage test_policy)"
    by code_simp+
  show ?thesis
    using save_recomputes_verdict [of "logged 5" test_now 1 test_form test_meta fifth_event]
      save_recomputes_verdict [of archived_db test_now 1 test_form test_meta fifth_event] h
    by simp
qed

text \<open>
  C3 as the specification states it fails: a later save computes the verdict again. The
  fifth event of the day is compliant when it is inserted; saved once more, unchanged
  and under the unchanged policy, it counts itself among the five events of the day and
  becomes non-compliant. The sixth event is non-compliant when it is inserted; saved
  once more after the policy was archived, it becomes compliant.
\<close>

theorem save_recomputes_counterexample:
  "l_is_compliant fifth_event \<and> fifth_event \<in> set (usage_logs (logged 5)) \<and>
   l_id (fst (save fifth_event (logged 5) test_now)) = l_id fifth_event \<and>
   \<not> l_is_compliant (fst (save fifth_event (logged 5) test_now)) \<and>
   \<not> l_is_compliant sixth_event \<and> sixth_event \<in> set (usage_logs archived_db) \<and>
   l_id (fst (save sixth_event archived_db test_now)) = l_id sixth_event \<and>
   l_is_compliant (fst (save sixth_event archived_db test_now))"
  by code_simp

section \<open>The insight generator\<close>

text \<open>
  C6. A save that inserts a usage event raises the user's count of events by one. When
  the new count is one of 10, 50, 100, 250, 500 and 1000, exactly one of the insights
  that the save creates is an achievement: it belongs to the user, has priority
  \<^verbatim>\<open>medium\<close>, and its title is \<^verbatim>\<open>Milestone: \<close>, the count in decimal and
  \<^verbatim>\<open> AI Interactions!\<close>. At any other count the save creates no achievement, and a
  save that updates a row creates no insight at all.
\<close>

theorem milestone_achievement:
  "(inserts d self \<longrightarrow>
      count_all (snd (save self d now)) (l_user self) = count_all d (l_user self) + 1 \<and>
      (\<exists>new. insights (snd (save self d now)) = insights d @ new \<and>
         filter (\<lambda>i. i_insight_type i = ''achievement'') new =
           (if count_all (snd (save self d now)) (l_user self) \<in> set milestones
            then [\<lparr>i_id = next_insight_id d + length new - 1, i_user = l_user self,
                   i_insight_type = ''achievement'',
                   i_title = ''Milestone: '' @
                     str_nat (count_all (snd (save self d now)) (l_user self)) @
                     '' AI Interactions!'',
                   i_message = ''Congratulations! You have logged '' @
                     str_nat (count_all (snd (save self d now)) (l_user self)) @
                     '' AI interactions. Keep learning responsibly!'',
                   i_priority = ''medium'', i_related_usage_logs = [], i_is_read = False,
                   i_is_dismissed = False, i_generated_at = now, i_expires_at = None\<rparr>]
            else []))) \<and>
   (\<not> inserts d self \<longrightarrow> insights (snd (save self d now)) = insights d) \<and>
   map str_nat milestones = [''10'', ''50'', ''100'', ''250'', ''500'', ''1000'']"
proof (intro conjI impI)
  assume ins: "inserts d self"
  from save_inserts [OF ins, of now] obtain row d1 where
    sv: "save self d now = (row, generate_usage_insights row True now d1)"
    and u: "l_user row = l_user self" and logs: "usage_logs d1 = usage_logs d @ [row]"
    and i1: "insights d1 = insights d" and n1: "next_insight_id d1 = next_insight_id d"
    by blast
  show cnt: "count_all (snd (save self d now)) (l_user self) = count_all d (l_user self) + 1"
    using count_all_append [OF logs, of "l_user self"] u by (simp add: sv)
  have c1: "count_all d1 (l_user self) = count_all (snd (save self d now)) (l_user self)"
    by (simp add: sv)
  show "\<exists>new. insights (snd (save self d now)) = insights d @ new \<and>
         filter (\<lambda>i. i_insight_type i = ''achievement'') new =
           (if count_all (snd (save self d now)) (l_user self) \<in> set milestones
            then [\<lparr>i_id = next_insight_id d + length new - 1, i_user = l_user self,
                   i_insight_type = ''achievement'',
                   i_title = ''Milestone: '' @
                     str_nat (count_all (snd (save self d now)) (l_user self)) @
                     '' AI Interactions!'',
                   i_message = ''Congratulations! You have logged '' @
                     str_nat (count_all (snd (save self d now)) (l_user self)) @
                     '' AI interactions. Keep learning responsibly!'',
                   i_priority = ''medium'', i_related_usage_logs = [], i_is_read = False,
                   i_is_dismissed = False, i_generated_at = now, i_expires_at = None\<rparr>]
            else [])"
    unfolding c1 [symmetric]
    by (simp add: sv insights_generate u i1 n1)
next
  assume "\<not> inserts d self"
  then show "insights (snd (save self d now)) = insights d"
    by (rule save_updates)
qed (rule str_nat_milestones)

theorem milestone_achievement_witness:
  "inserts (logged 9) new_event \<and>
   count_all (snd (save new_event (logged 9) test_now)) (l_user new_event) = 10 \<and>
   map (\<lambda>i. (i_user i, i_title i, i_priority i))
     (filter (\<lambda>i. i_insight_type i = ''achievement'')
        (insights (snd (save new_event (logged 9) test_now)))) =
     [(1, ''Milestone: 10 AI Interactions!'', ''medium'')] \<and>
   inserts (logged 10) new_event \<and>
   count_all (snd (save new_event (logged 10) test_now)) (l_user new_event) = 11 \<and>
   filter (\<lambda>i. i_insight_type i = ''achievement'')
     (insights (snd (save new_event (logged 10) test_now))) =
   filter (\<lambda>i. i_insight_type i = ''achievement'') (insights (logged 10))"
proof -
  have h: "inserts (logged 9) new_event" "count_all (logged 9) (l_user new_event) = 9"
    "insights (logged 9) = []" "l_user new_event = 1"
    "inserts (logged 10) new_event" "count_all (logged 10) (l_user new_event) = 10"
    by code_simp+
  have m: "(10::nat) \<in> set milestones" "(11::nat) \<notin> set milestones" "str_nat 10 = ''10''"
    by (simp_all add: milestones_def str_nat.simps digit_char_def)
  from milestone_achievement [of "logged 9" new_event test_now] h m
  have a: "count_all (snd (save new_event (logged 9) test_now)) (l_user new_event) = 10"
    and b: "map (\<lambda>i. (i_user i, i_title i, i_priority i))
     (filter (\<lambda>i. i_insight_type i = ''achievement'')
        (insights (snd (save new_event (logged 9) test_now)))) =
     [(1, ''Milestone: 10 AI Interactions!'', ''medium'')]"
    by auto
  from milestone_achievement [of "logged 10" new_event test_now] h m
  have c: "count_all (snd (save new_event (logged 10) test_now)) (l_user new_event) = 11"
    and e: "filter (\<lambda>i. i_insight_type i = ''achievement'')
     (insights (snd (save new_event (logged 10) test_now))) =
   filter (\<lambda>i. i_insight_type i = ''achievement'') (insights (logged 10))"
    by auto
  show ?thesis using h a b c e by simp
qed

text \<open>
  C7. A save that inserts a usage event creates a warning insight if and only if the
  user's events of the day, the new one among them, number 50 or more and the store
  holds no warning of this user generated since midnight; the warning has priority
  \<^verbatim>\<open>high\<close>. So over any sequence of requests of one day, whoever sends them, the
  warnings of a user generated since that midnight stay as many as they were when
  there was one already, and become one at most when there was none.
\<close>

theorem warning_once_a_day:
  "(inserts d self \<longrightarrow>
      (\<exists>new. insights (snd (save self d now)) = insights d @ new \<and>
         filter (\<lambda>i. i_insight_type i = ''warning'') new =
           (if 50 \<le> count_since (snd (save self d now)) (l_user self) (today_start now) \<and>
               warnings_since d (l_user self) (today_start now) = []
            then [\<lparr>i_id = next_insight_id d, i_user = l_user self,
                   i_insight_type = ''warning'', i_title = ''High AI Usage Today'',
                   i_message = ''You have logged '' @
                     str_int (count_since (snd (save self d now)) (l_user self) (today_start now)) @
                     '' AI interactions today. Consider taking breaks and reflecting on your learning process.'',
                   i_priority = ''high'', i_related_usage_logs = [], i_is_read = False,
                   i_is_dismissed = False, i_generated_at = now, i_expires_at = None\<rparr>]
            else []))) \<and>
   (insight_keys_ok d \<and>
    (\<forall>r\<in>set rs. \<forall>t. request_time r = Some t \<longrightarrow> today_start t = s) \<longrightarrow>
      length (warnings_since (run rs d) u s) \<le> max 1 (length (warnings_since d u s)))"
proof (intro conjI impI)
  assume ins: "inserts d self"
  from save_inserts [OF ins, of now] obtain row d1 where
    sv: "save self d now = (row, generate_usage_insights row True now d1)"
    and u: "l_user row = l_user self" and logs: "usage_logs d1 = usage_logs d @ [row]"
    and i1: "insights d1 = insights d" and n1: "next_insight_id d1 = next_insight_id d"
    by blast
  have c1: "count_since d1 (l_user self) (today_start now) =
      count_since (snd (save self d now)) (l_user self) (today_start now)"
    by (simp add: sv)
  have w1: "warned_today d1 (l_user self) (today_start now) \<longleftrightarrow>
      warnings_since d (l_user self) (today_start now) \<noteq> []"
    using i1 by (simp add: warned_today_iff warnings_since_def)
  show "\<exists>new. insights (snd (save self d now)) = insights d @ new \<and>
         filter (\<lambda>i. i_insight_type i = ''warning'') new =
           (if 50 \<le> count_since (snd (save self d now)) (l_user self) (today_start now) \<and>
               warnings_since d (l_user self) (today_start now) = []
            then [\<lparr>i_id = next_insight_id d, i_user = l_user self,
                   i_insight_type = ''warning'', i_title = ''High AI Usage Today'',
                   i_message = ''You have logged '' @
                     str_int (count_since (snd (save self d now)) (l_user self) (today_start now)) @
                     '' AI interactions today. Consider taking breaks and reflecting on your learning process.'',
                   i_priority = ''high'', i_related_usage_logs = [], i_is_read = False,
                   i_is_dismissed = False, i_generated_at = now, i_expires_at = None\<rparr>]
            else [])"
    unfolding c1 [symmetric]
    by (simp add: sv insights_generate u i1 n1 w1)
next
  assume "insight_keys_ok d \<and>
    (\<forall>r\<in>set rs. \<forall>t. request_time r = Some t \<longrightarrow> today_start t = s)"
  then show "length (warnings_since (run rs d) u s) \<le> max 1 (length (warnings_since d u s))"
    using warnings_run [of d rs s u] by blast
qed

theorem warning_once_a_day_witness:
  "inserts busy_db new_event \<and>
   count_since (snd (save new_event busy_db test_now)) 1 (today_start test_now) = 50 \<and>
   warnings_since busy_db 1 (today_start test_now) = [] \<and>
   map (\<lambda>i. (i_user i, i_title i, i_priority i))
     (filter (\<lambda>i. i_insight_type i = ''warning'')
        (insights (snd (save new_event busy_db test_now)))) =
     [(1, ''High AI Usage Today'', ''high'')] \<and>
   insight_keys_ok busy_db \<and>
   length (warnings_since (run [log_request, log_request, log_request] busy_db) 1
     (today_start test_now)) \<le> 1"
proof -
  note f = busy_db_facts
  have c: "count_since (snd (save new_event busy_db test_now)) 1 (today_start test_now) = 50"
    using count_since_save_inserts [OF f(1), of test_now 1] f by simp
  have day: "\<forall>r\<in>set [log_request, log_request, log_request].
      \<forall>t. request_time r = Some t \<longrightarrow> today_start t = today_start test_now"
    by (simp add: log_request_def)
  from warning_once_a_day
    [of busy_db new_event test_now "[log_request, log_request, log_request]"
      "today_start test_now" 1]
  have step: "\<exists>new. insights (snd (save new_event busy_db test_now)) = insights busy_db @ new \<and>
         filter (\<lambda>i. i_insight_type i = ''warning'') new =
           [\<lparr>i_id = 1, i_user = 1, i_insight_type = ''warning'',
             i_title = ''High AI Usage Today'',
             i_message = ''You have logged '' @ str_int 50 @
               '' AI interactions today. Consider taking breaks and reflecting on your learning process.'',
             i_priority = ''high'', i_related_usage_logs = [], i_is_read = False,
             i_is_dismissed = False, i_generated_at = test_now, i_expires_at = None\<rparr>]"
    and bound: "length (warnings_since (run [log_request, log_request, log_request] busy_db) 1
        (today_start test_now)) \<le> max 1 (length (warnings_since busy_db 1 (today_start test_now)))"
    using f c day by simp_all
  from step f have
    "map (\<lambda>i. (i_user i, i_title i, i_priority i))
     (filter (\<lambda>i. i_insight_type i = ''warning'')
        (insights (snd (save new_event busy_db test_now)))) =
     [(1, ''High AI Usage Today'', ''high'')]"
    by auto
  with f c bound show ?thesis by simp
qed

section \<open>The insight views\<close>

text \<open>
  C9. With unique insight keys, dismissing an insight that the requesting user owns
  redirects to the insights page and changes that one row, whose \<^verbatim>\<open>is_dismissed\<close>
  becomes true; the insight is in no listing of the user afterwards, neither at once
  nor after any further requests, nor in the page that \<^verbatim>\<open>insights_view\<close> then renders.
  Dismissing a key that no insight has, or that only insights of other users have, is
  answered with not-found and leaves the store as it was.
\<close>

theorem dismiss_insight:
  "(insight_keys_ok d \<and> i \<in> set (insights d) \<and> i_id i = k \<and> i_user i = user \<longrightarrow>
      fst (dismiss_insight_view user k d) = Inr ''dashboard:insights'' \<and>
      snd (dismiss_insight_view user k d) =
        d\<lparr>insights := map (\<lambda>j. if j = i then i\<lparr>i_is_dismissed := True\<rparr> else j) (insights d)\<rparr> \<and>
      i\<lparr>i_is_dismissed := True\<rparr> \<in> set (insights (snd (dismiss_insight_view user k d))) \<and>
      (\<forall>j\<in>set (insights_listing (snd (dismiss_insight_view user k d)) user). i_id j \<noteq> k) \<and>
      (\<forall>rs. \<forall>j\<in>set (insights_listing (run rs (snd (dismiss_insight_view user k d))) user).
         i_id j \<noteq> k) \<and>
      (\<forall>rs. \<forall>j\<in>set (fst (insights_view user (run rs (snd (dismiss_insight_view user k d))))).
         i_id j \<noteq> k)) \<and>
   ((\<forall>j\<in>set (insights d). i_id j = k \<longrightarrow> i_user j \<noteq> user) \<longrightarrow>
      dismiss_insight_view user k d = (Inl Http404, d))"
proof (intro conjI impI)
  assume a: "insight_keys_ok d \<and> i \<in> set (insights d) \<and> i_id i = k \<and> i_user i = user"
  then have ok: "insight_keys_ok d" and i: "i \<in> set (insights d)" "i_id i = k" "i_user i = user"
    by simp_all
  from ok have dist: "distinct (map i_id (insights d))"
    and below: "\<forall>j\<in>set (insights d). i_id j < next_insight_id d"
    by (simp_all add: insight_keys_ok_def list_all_iff)
  from dist have inj: "inj_on i_id (set (insights d))"
    by (simp add: distinct_map)
  have uniq: "j = i" if "j \<in> set (insights d)" "i_id j = k" for j
  proof -
    from i(1) that(1) inj have "i_id j = i_id i \<Longrightarrow> j = i"
      by (rule_tac inj_onD [of i_id "set (insights d)"]) simp_all
    with that(2) i(2) show ?thesis by simp
  qed
  let ?d = "snd (dismiss_insight_view user k d)"
  have "filter (\<lambda>j. i_id j = k \<and> i_user j = user) (insights d) \<noteq> []"
    using i by (auto simp: filter_empty_conv)
  moreover have "length (filter (\<lambda>j. i_id j = k \<and> i_user j = user) (insights d)) \<le> 1"
    using dist by (rule filter_key_le_one)
  ultimately obtain x where m: "filter (\<lambda>j. i_id j = k \<and> i_user j = user) (insights d) = [x]"
    by (cases "filter (\<lambda>j. i_id j = k \<and> i_user j = user) (insights d)") auto
  show "fst (dismiss_insight_view user k d) = Inr ''dashboard:insights''"
    using m by (simp add: dismiss_insight_view_def get_object_or_404_def Let_def)
  have "map (\<lambda>j. if i_id j = k \<and> i_user j = user then j\<lparr>i_is_dismissed := True\<rparr> else j)
          (insights d) =
        map (\<lambda>j. if j = i then i\<lparr>i_is_dismissed := True\<rparr> else j) (insights d)"
  proof (rule map_cong [OF refl])
    fix j assume j: "j \<in> set (insights d)"
    show "(if i_id j = k \<and> i_user j = user then j\<lparr>i_is_dismissed := True\<rparr> else j) =
        (if j = i then i\<lparr>i_is_dismissed := True\<rparr> else j)"
    proof (cases "i_id j = k")
      case True
      with j have "j = i" by (rule uniq)
      with i show ?thesis by simp
    next
      case False
      with i(2) have "j \<noteq> i" by auto
      with False show ?thesis by simp
    qed
  qed
  then show eq: "?d = d\<lparr>insights := map (\<lambda>j. if j = i then i\<lparr>i_is_dismissed := True\<rparr> else j)
      (insights d)\<rparr>"
    by (simp add: dismiss_insights [OF dist])
  show mem: "i\<lparr>i_is_dismissed := True\<rparr> \<in> set (insights ?d)"
    using i(1) by (auto simp: eq image_iff)
  have ok': "insight_keys_ok ?d"
    using insight_keys_ok_handle [OF ok, of "DismissInsight user k"] by simp
  have k': "k < next_insight_id ?d"
    using below i by (auto simp: eq)
  have dis: "\<forall>j\<in>set (insights ?d). i_id j = k \<longrightarrow> i_is_dismissed j"
    using uniq by (auto simp: eq)
  have after: "\<forall>j\<in>set (insights (run rs ?d)). i_id j = k \<longrightarrow> i_is_dismissed j" for rs
    using ok' k' dis by (rule dismissed_run)
  show "\<forall>j\<in>set (insights_listing ?d user). i_id j \<noteq> k"
    using dis by (auto simp: set_insights_listing)
  show "\<forall>rs. \<forall>j\<in>set (insights_listing (run rs ?d) user). i_id j \<noteq> k"
    using after by (auto simp: set_insights_listing)
  show "\<forall>rs. \<forall>j\<in>set (fst (insights_view user (run rs ?d))). i_id j \<noteq> k"
  proof (intro allI ballI)
    fix rs j
    assume "j \<in> set (fst (insights_view user (run rs ?d)))"
    then have "j \<in> set (insights_listing (run (rs @ [ViewInsights user]) ?d) user)"
      by (simp add: run_snoc fst_insights_view)
    then show "i_id j \<noteq> k"
      using after [of "rs @ [ViewInsights user]"] by (auto simp: set_insights_listing)
  qed
next
  assume "\<forall>j\<in>set (insights d). i_id j = k \<longrightarrow> i_user j \<noteq> user"
  then show "dismiss_insight_view user k d = (Inl Http404, d)"
    by (rule dismiss_not_found)
qed

theorem dismiss_insight_witness:
  "insight_keys_ok insights_db \<and> insight_ex 2 1 \<in> set (insights insights_db) \<and>
   fst (dismiss_insight_view 1 2 insights_db) = Inr ''dashboard:insights'' \<and>
   (insight_ex 2 1)\<lparr>i_is_dismissed := True\<rparr>
     \<in> set (insights (snd (dismiss_insight_view 1 2 insights_db))) \<and>
   2 \<notin> i_id ` set (insights_listing (snd (dismiss_insight_view 1 2 insights_db)) 1) \<and>
   2 \<notin> i_id ` set (fst (insights_view 1
          (run later_requests (snd (dismiss_insight_view 1 2 insights_db))))) \<and>
   dismiss_insight_view 1 3 insights_db = (Inl Http404, insights_db) \<and>
   dismiss_insight_view 1 7 insights_db = (Inl Http404, insights_db)"
proof -
  note f = insights_db_facts
  have prem: "insight_keys_ok insights_db \<and> insight_ex 2 1 \<in> set (insights insights_db) \<and>
      i_id (insight_ex 2 1) = 2 \<and> i_user (insight_ex 2 1) = 1"
    by (intro conjI) (rule f)+
  note th = dismiss_insight [of insights_db "insight_ex 2 1" 2 1, THEN conjunct1, THEN mp, OF prem]
  note a = th [THEN conjunct1]
  note b = th [THEN conjunct2, THEN conjunct2, THEN conjunct1]
  note c = th [THEN conjunct2, THEN conjunct2, THEN conjunct2, THEN conjunct1]
  note e = th [THEN conjunct2, THEN conjunct2, THEN conjunct2, THEN conjunct2, THEN conjunct2,
    THEN spec, of later_requests]
  note g = dismiss_insight [of insights_db "insight_ex 2 1" 3 1, THEN conjunct2, THEN mp, OF f(5)]
  note h = dismiss_insight [of insights_db "insight_ex 2 1" 7 1, THEN conjunct2, THEN mp, OF f(6)]
  from c have c': "2 \<notin> i_id ` set (insights_listing (snd (dismiss_insight_view 1 2 insights_db)) 1)"
    by (metis imageE)
  from e have e': "2 \<notin> i_id ` set (fst (insights_view 1
          (run later_requests (snd (dismiss_insight_view 1 2 insights_db)))))"
    by (metis imageE)
  show ?thesis
    by (intro conjI) (rule f a b c' e' g h)+
qed

text \<open>
  C10. Viewing the insights page writes to the store: in every insight of the
  requesting user that is not dismissed, \<^verbatim>\<open>is_read\<close> becomes true, and nothing else
  changes, neither another field of such a row, nor a dismissed row or a row of another
  user, nor another table. Afterwards the user has no unread insight that is not
  dismissed, and the page shows exactly the user's insights that are not dismissed,
  all of them read.
\<close>

theorem insights_view_marks_read:
  "snd (insights_view user d) =
     d\<lparr>insights := map (\<lambda>i. if i_user i = user \<and> \<not> i_is_dismissed i \<and> \<not> i_is_read i
                               then i\<lparr>i_is_read := True\<rparr> else i) (insights d)\<rparr> \<and>
   length (insights (snd (insights_view user d))) = length (insights d) \<and>
   (\<forall>n < length (insights d).
      insights (snd (insights_view user d)) ! n =
        (if i_user (insights d ! n) = user \<and> \<not> i_is_dismissed (insights d ! n)
         then (insights d ! n)\<lparr>i_is_read := True\<rparr> else insights d ! n)) \<and>
   (\<forall>i\<in>set (insights (snd (insights_view user d))).
      i_user i = user \<and> \<not> i_is_dismissed i \<longrightarrow> i_is_read i) \<and>
   (\<forall>i\<in>set (fst (insights_view user d)). i_is_read i) \<and>
   set (fst (insights_view user d)) =
     {i \<in> set (insights (snd (insights_view user d))). i_user i = user \<and> \<not> i_is_dismissed i}"
proof (intro conjI)
  let ?g = "\<lambda>i. if i_user i = user \<and> \<not> i_is_dismissed i \<and> \<not> i_is_read i
                then i\<lparr>i_is_read := True\<rparr> else i"
  show eq: "snd (insights_view user d) = d\<lparr>insights := map ?g (insights d)\<rparr>"
    by (simp add: insights_view_def Let_def)
  have ins: "insights (snd (insights_view user d)) = map ?g (insights d)"
    by (simp add: eq)
  show "length (insights (snd (insights_view user d))) = length (insights d)"
    by (simp add: ins)
  show "\<forall>n < length (insights d).
      insights (snd (insights_view user d)) ! n =
        (if i_user (insights d ! n) = user \<and> \<not> i_is_dismissed (insights d ! n)
         then (insights d ! n)\<lparr>i_is_read := True\<rparr> else insights d ! n)"
    by (simp add: ins mark_read_cases del: if_split)
  show rd: "\<forall>i\<in>set (insights (snd (insights_view user d))).
      i_user i = user \<and> \<not> i_is_dismissed i \<longrightarrow> i_is_read i"
  proof (intro ballI impI)
    fix i
    assume mem: "i \<in> set (insights (snd (insights_view user d)))"
      and own: "i_user i = user \<and> \<not> i_is_dismissed i"
    from mem have "i \<in> ?g ` set (insights d)"
      unfolding ins set_map .
    then obtain j where j: "i = ?g j"
      by (erule_tac imageE)
    show "i_is_read i"
    proof (cases "i_user j = user \<and> \<not> i_is_dismissed j \<and> \<not> i_is_read j")
      case True
      then have "i = j\<lparr>i_is_read := True\<rparr>" using j by simp
      then show ?thesis by simp
    next
      case False
      then have "i = j" using j by simp
      with False own show ?thesis by simp
    qed
  qed
  show st: "set (fst (insights_view user d)) =
     {i \<in> set (insights (snd (insights_view user d))). i_user i = user \<and> \<not> i_is_dismissed i}"
    by (simp only: fst_insights_view set_insights_listing)
  show "\<forall>i\<in>set (fst (insights_view user d)). i_is_read i"
  proof
    fix i assume "i \<in> set (fst (insights_view user d))"
    then have "i \<in> set (insights (snd (insights_view user d)))"
      and "i_user i = user \<and> \<not> i_is_dismissed i"
      unfolding st by simp_all
    with rd show "i_is_read i" by blast
  qed
qed

theorem insights_view_marks_read_witness:
  "insights (snd (insights_view 1 insights_db)) =
     [(insight_ex 1 1)\<lparr>i_is_read := True\<rparr>, (insight_ex 2 1)\<lparr>i_is_read := True\<rparr>,
      insight_ex 3 2] \<and>
   snd (insights_view 1 insights_db) =
     insights_db\<lparr>insights := insights (snd (insights_view 1 insights_db))\<rparr>"
proof -
  note th = insights_view_marks_read [of 1 insights_db, THEN conjunct1]
  have sel: "insights (snd (insights_view 1 insights_db)) =
      map (\<lambda>i. if i_user i = 1 \<and> \<not> i_is_dismissed i \<and> \<not> i_is_read i
                then i\<lparr>i_is_read := True\<rparr> else i) (insights insights_db)"
    by (subst th) simp
  have a: "insights (snd (insights_view 1 insights_db)) =
     [(insight_ex 1 1)\<lparr>i_is_read := True\<rparr>, (insight_ex 2 1)\<lparr>i_is_read := True\<rparr>,
      insight_ex 3 2]"
    by (simp only: sel insights_db_rows insights_db_marked)
  have b: "snd (insights_view 1 insights_db) =
     insights_db\<lparr>insights := insights (snd (insights_view 1 insights_db))\<rparr>"
    by (simp only: sel) (rule th)
  from a b show ?thesis by (rule conjI)
qed

section \<open>Data export\<close>

text \<open>
  C8. The export of a user fails exactly when the user has no profile. Otherwise it is a
  JSON object with the keys \<^verbatim>\<open>user\<close>, \<^verbatim>\<open>profile\<close>, \<^verbatim>\<open>usage_logs\<close>, \<^verbatim>\<open>insights\<close>
  and \<^verbatim>\<open>feedback\<close> and no other; the first holds fields of the requesting user, the
  second fields of a profile of that user, and the last three the values of exactly the
  usage logs, insights and feedback rows whose owner is that user. The export is
  determined by the rows the user owns: two stores with the same rows of that user give
  the same export, whatever rows of other users they hold.
\<close>

theorem export_data_owned:
  "(export_data_view user d = Inl RelatedObjectDoesNotExist \<longleftrightarrow>
      filter (\<lambda>p. pr_user p = u_id user) (profiles d) = []) \<and>
   (\<forall>j. export_data_view user d = Inr j \<longrightarrow>
      json_keys j = [''user'', ''profile'', ''usage_logs'', ''insights'', ''feedback''] \<and>
      json_field ''user'' j = Some (JObj
        [(''username'', JStr (u_username user)), (''email'', JStr (u_email user)),
         (''first_name'', JStr (u_first_name user)), (''last_name'', JStr (u_last_name user)),
         (''date_joined'', JDateTime (u_date_joined user))]) \<and>
      (\<exists>p\<in>set (profiles d). pr_user p = u_id user \<and>
         json_field ''profile'' j = Some (JObj
           [(''student_id'', (case pr_student_id p of None \<Rightarrow> JNull | Some s \<Rightarrow> JStr s)),
            (''department'', JStr (pr_department p)),
            (''enrollment_date'', JDate (pr_enrollment_date p)),
            (''data_collection_consent'', JBool (pr_data_collection_consent p)),
            (''consent_date'',
               (case pr_consent_date p of None \<Rightarrow> JNull | Some t \<Rightarrow> JDateTime t))])) \<and>
      json_field ''usage_logs'' j =
        Some (JList (map log_values (filter (\<lambda>r. l_user r = u_id user) (usage_logs d)))) \<and>
      json_field ''insights'' j =
        Some (JList (map insight_values (filter (\<lambda>i. i_user i = u_id user) (insights d)))) \<and>
      json_field ''feedback'' j =
        Some (JList (map feedback_values (filter (\<lambda>f. f_user f = u_id user) (feedback d))))) \<and>
   (filter (\<lambda>p. pr_user p = u_id user) (profiles d) =
      filter (\<lambda>p. pr_user p = u_id user) (profiles d') \<and>
    filter (\<lambda>r. l_user r = u_id user) (usage_logs d) =
      filter (\<lambda>r. l_user r = u_id user) (usage_logs d') \<and>
    filter (\<lambda>i. i_user i = u_id user) (insights d) =
      filter (\<lambda>i. i_user i = u_id user) (insights d') \<and>
    filter (\<lambda>f. f_user f = u_id user) (feedback d) =
      filter (\<lambda>f. f_user f = u_id user) (feedback d') \<longrightarrow>
      export_data_view user d = export_data_view user d')"
proof (intro conjI allI impI)
  show "export_data_view user d = Inl RelatedObjectDoesNotExist \<longleftrightarrow>
      filter (\<lambda>p. pr_user p = u_id user) (profiles d) = []"
    by (simp add: export_data_view_def find_filter_head split: list.splits)
next
  fix j assume ex: "export_data_view user d = Inr j"
  then obtain p where p: "find (\<lambda>p. pr_user p = u_id user) (profiles d) = Some p"
    by (cases "find (\<lambda>p. pr_user p = u_id user) (profiles d)")
      (simp_all add: export_data_view_def)
  then have pm: "p \<in> set (profiles d)" "pr_user p = u_id user"
    by (auto simp: find_Some_iff)
  from ex p have j: "j = JObj
            [(''user'', JObj
                [(''username'', JStr (u_username user)), (''email'', JStr (u_email user)),
                 (''first_name'', JStr (u_first_name user)),
                 (''last_name'', JStr (u_last_name user)),
                 (''date_joined'', JDateTime (u_date_joined user))]),
             (''profile'', JObj
                [(''student_id'',
                    (case pr_student_id p of None \<Rightarrow> JNull | Some s \<Rightarrow> JStr s)),
                 (''department'', JStr (pr_department p)),
                 (''enrollment_date'', JDate (pr_enrollment_date p)),
                 (''data_collection_consent'', JBool (pr_data_collection_consent p)),
                 (''consent_date'',
                    (case pr_consent_date p of None \<Rightarrow> JNull | Some t \<Rightarrow> JDateTime t))]),
             (''usage_logs'',
                JList (map log_values (filter (\<lambda>r. l_user r = u_id user) (usage_logs d)))),
             (''insights'',
                JList (map insight_values (filter (\<lambda>i. i_user i = u_id user) (insights d)))),
             (''feedback'',
                JList (map feedback_values (filter (\<lambda>f. f_user f = u_id user) (feedback d))))]"
    by (simp add: export_data_view_def)
  show "json_keys j = [''user'', ''profile'', ''usage_logs'', ''insights'', ''feedback'']"
    by (simp add: j)
  show "json_field ''user'' j = Some (JObj
        [(''username'', JStr (u_username user)), (''email'', JStr (u_email user)),
         (''first_name'', JStr (u_first_name user)), (''last_name'', JStr (u_last_name user)),
         (''date_joined'', JDateTime (u_date_joined user))])"
    by (simp add: j)
  have "json_field ''profile'' j = Some (JObj
           [(''student_id'', (case pr_student_id p of None \<Rightarrow> JNull | Some s \<Rightarrow> JStr s)),
            (''department'', JStr (pr_department p)),
            (''enrollment_date'', JDate (pr_enrollment_date p)),
            (''data_collection_consent'', JBool (pr_data_collection_consent p)),
            (''consent_date'',
               (case pr_consent_date p of None \<Rightarrow> JNull | Some t \<Rightarrow> JDateTime t))])"
    by (simp add: j)
  with pm show "\<exists>p\<in>set (profiles d). pr_user p = u_id user \<and>
         json_field ''profile'' j = Some (JObj
           [(''student_id'', (case pr_student_id p of None \<Rightarrow> JNull | Some s \<Rightarrow> JStr s)),
            (''department'', JStr (pr_department p)),
            (''enrollment_date'', JDate (pr_enrollment_date p)),
            (''data_collection_consent'', JBool (pr_data_collection_consent p)),
            (''consent_date'',
               (case pr_consent_date p of None \<Rightarrow> JNull | Some t \<Rightarrow> JDateTime t))])"
    by (rule_tac bexI [of _ p]) simp_all
  show "json_field ''usage_logs'' j =
        Some (JList (map log_values (filter (\<lambda>r. l_user r = u_id user) (usage_logs d))))"
    by (simp add: j)
  show "json_field ''insights'' j =
        Some (JList (map insight_values (filter (\<lambda>i. i_user i = u_id user) (insights d))))"
    by (simp add: j)
  show "json_field ''feedback'' j =
        Some (JList (map feedback_values (filter (\<lambda>f. f_user f = u_id user) (feedback d))))"
    by (simp add: j)
next
  assume a: "filter (\<lambda>p. pr_user p = u_id user) (profiles d) =
      filter (\<lambda>p. pr_user p = u_id user) (profiles d') \<and>
    filter (\<lambda>r. l_user r = u_id user) (usage_logs d) =
      filter (\<lambda>r. l_user r = u_id user) (usage_logs d') \<and>
    filter (\<lambda>i. i_user i = u_id user) (insights d) =
      filter (\<lambda>i. i_user i = u_id user) (insights d') \<and>
    filter (\<lambda>f. f_user f = u_id user) (feedback d) =
      filter (\<lambda>f. f_user f = u_id user) (feedback d')"
  then have e1: "filter (\<lambda>p. pr_user p = u_id user) (profiles d) =
      filter (\<lambda>p. pr_user p = u_id user) (profiles d')"
    and e2: "filter (\<lambda>r. l_user r = u_id user) (usage_logs d) =
      filter (\<lambda>r. l_user r = u_id user) (usage_logs d')"
    and e3: "filter (\<lambda>i. i_user i = u_id user) (insights d) =
      filter (\<lambda>i. i_user i = u_id user) (insights d')"
    and e4: "filter (\<lambda>f. f_user f = u_id user) (feedback d) =
      filter (\<lambda>f. f_user f = u_id user) (feedback d')"
    by blast+
  from e1 have fnd: "find (\<lambda>p. pr_user p = u_id user) (profiles d) =
      find (\<lambda>p. pr_user p = u_id user) (profiles d')"
    by (rule find_filter_cong)
  show "export_data_view user d = export_data_view user d'"
    unfolding export_data_view_def fnd e2 e3 e4 by (rule refl)
qed

theorem export_data_owned_witness:
  "export_data_view test_user shared_db = export_data_view test_user alone_db \<and>
   map_sum id json_keys (export_data_view test_user shared_db) =
     Inr [''user'', ''profile'', ''usage_logs'', ''insights'', ''feedback''] \<and>
   map_sum id (json_field ''usage_logs'') (export_data_view test_user shared_db) =
     Inr (Some (JList [log_values (day_event 1), log_values (day_event 3)]))"
proof -
  note f = shared_db_facts
  have hyp: "filter (\<lambda>p. pr_user p = u_id test_user) (profiles shared_db) =
      filter (\<lambda>p. pr_user p = u_id test_user) (profiles alone_db) \<and>
    filter (\<lambda>r. l_user r = u_id test_user) (usage_logs shared_db) =
      filter (\<lambda>r. l_user r = u_id test_user) (usage_logs alone_db) \<and>
    filter (\<lambda>i. i_user i = u_id test_user) (insights shared_db) =
      filter (\<lambda>i. i_user i = u_id test_user) (insights alone_db) \<and>
    filter (\<lambda>f. f_user f = u_id test_user) (feedback shared_db) =
      filter (\<lambda>f. f_user f = u_id test_user) (feedback alone_db)"
    by (intro conjI) (rule f)+
  note th = export_data_owned [of test_user shared_db alone_db]
  note same = th [THEN conjunct2, THEN conjunct2, THEN mp, OF hyp]
  from th [THEN conjunct1] f(5)
  have "export_data_view test_user shared_db \<noteq> Inl RelatedObjectDoesNotExist"
    by blast
  then obtain j where j: "export_data_view test_user shared_db = Inr j"
    by (cases "export_data_view test_user shared_db")
      (auto simp: export_data_view_def split: option.splits)
  note fields = th [THEN conjunct2, THEN conjunct1, THEN spec, THEN mp, OF j]
  have k: "json_keys j = [''user'', ''profile'', ''usage_logs'', ''insights'', ''feedback'']"
    by (rule fields [THEN conjunct1])
  have l: "json_field ''usage_logs'' j =
      Some (JList [log_values (day_event 1), log_values (day_event 3)])"
    using fields [THEN conjunct2, THEN conjunct2, THEN conjunct2, THEN conjunct1]
    by (simp only: f(6) list.map)
  have k': "map_sum id json_keys (export_data_view test_user shared_db) =
     Inr [''user'', ''profile'', ''usage_logs'', ''insights'', ''feedback'']"
    unfolding j by (simp add: k)
  have l': "map_sum id (json_field ''usage_logs'') (export_data_view test_user shared_db) =
     Inr (Some (JList [log_values (day_event 1), log_values (day_event 3)]))"
    unfolding j by (simp add: l)
  from same k' l' show ?thesis by (intro conjI)
qed

section \<open>The compliance aggregator\<close>





end
